theory Spec2Isabelle
  imports Main "HOL-Library.Word" "HOL-Library.Signed_Division" "HOL-Library.AList"
    "HOL-Library.Multiset"
begin

section \<open>Data model of parser.go\<close>

text \<open>
  \<^verbatim>\<open>type Result int\<close> with \<^verbatim>\<open>PASS Result = iota; FAIL; SKIP\<close>: the constants are the
  integers 0, 1 and 2, and the zero value of the type is 0.
\<close>

type_synonym Result = int

definition PASS :: Result where "PASS = 0"
definition FAIL :: Result where "FAIL = 1"
definition SKIP :: Result where "SKIP = 2"

text \<open>\<^verbatim>\<open>time.Duration\<close> is an int64 count of nanoseconds; its arithmetic wraps.\<close>

type_synonym Duration = "64 word"

definition Millisecond :: Duration where "Millisecond = 1000000"

text \<open>
  A \<^verbatim>\<open>*Test\<close> is an address into the store of allocated Test objects (a list, an object's
  address being its index); a nil pointer is \<open>None\<close> of \<open>ptr option\<close>.
\<close>

type_synonym ptr = nat

record Test =
  Test_Name :: string
  Test_Duration :: Duration
  Test_Result :: Result
  Output :: "string list"
  Failure :: "string list"
  SkipMsg :: "string list"
  SubtestIndent :: string
  Test_Time :: int

record Benchmark =
  Benchmark_Name :: string
  Benchmark_Duration :: Duration
  Bytes :: int
  Allocs :: int

record Package =
  Package_Name :: string
  Package_Duration :: Duration
  Tests :: "ptr list"
  Benchmarks :: "Benchmark list"
  CoveragePct :: string
  Package_Time :: int

record Report =
  Packages :: "Package list"

record Info =
  Info_Suite :: string
  Info_Test :: string
  Info_Msg :: string

text \<open>The composite literal \<^verbatim>\<open>&Test{Name: name}\<close>: every other field has its zero value.\<close>

definition new_Test :: "string \<Rightarrow> Test" where
  "new_Test name =
     \<lparr>Test_Name = name, Test_Duration = 0, Test_Result = 0, Output = [], Failure = [],
      SkipMsg = [], SubtestIndent = [], Test_Time = 0\<rparr>"

section \<open>Regular expressions\<close>

text \<open>
  The fragment of Go's regexp syntax that the patterns of parser.go use. Repetition is only
  ever applied to a single character class there, so \<open>Plus\<close> takes a class. Characters are
  bytes; the classes and literals next to \<^verbatim>\<open>.\<close> and \<^verbatim>\<open>[^ ]\<close> are ASCII, so matching bytes and
  matching UTF-8 runes accept the same lines with the same submatches.
\<close>

datatype regex =
    Eps
  | Bol
  | Eol
  | Lit string
  | One "char \<Rightarrow> bool"
  | Plus "char \<Rightarrow> bool"
  | Cat regex regex
  | Alt regex regex
  | Opt regex
  | Cap nat regex

definition cat :: "regex list \<Rightarrow> regex" where
  "cat rs = foldr Cat rs Eps"

text \<open>\<^verbatim>\<open>\s\<close>, \<^verbatim>\<open>\d\<close>, \<^verbatim>\<open>\w\<close>, \<^verbatim>\<open>[^ ]\<close> and \<^verbatim>\<open>.\<close> (which excludes the newline).\<close>

definition cls_s :: "char \<Rightarrow> bool" where
  "cls_s c = (c \<in> set [CHR 0x09, CHR 0x0A, CHR 0x0C, CHR 0x0D, CHR '' ''])"

definition cls_d :: "char \<Rightarrow> bool" where
  "cls_d c = (c \<in> set ''0123456789'')"

definition cls_w :: "char \<Rightarrow> bool" where
  "cls_w c = (c \<in> set ''0123456789ABCDEFGHIJKLMNOPQRSTUVWXYZ_abcdefghijklmnopqrstuvwxyz'')"

definition cls_not_space :: "char \<Rightarrow> bool" where
  "cls_not_space c = (c \<noteq> CHR '' '')"

definition cls_any :: "char \<Rightarrow> bool" where
  "cls_any c = (c \<noteq> CHR 0x0A)"

text \<open>
  A matcher state is the number of bytes before the current position, the input from the
  current position on, and the submatches recorded so far. \<open>rmatch r st\<close> lists the states
  in which a match of \<open>r\<close> from \<open>st\<close> can end, in the order in which a backtracking matcher
  tries them: the left alternative first, the longest repetition first, an optional part
  present first. Go's regexp returns the match a backtracking matcher finds first.
\<close>

type_synonym mstate = "nat \<times> string \<times> (nat \<times> string) list"

fun rmatch :: "regex \<Rightarrow> mstate \<Rightarrow> mstate list" where
  "rmatch Eps st = [st]"
| "rmatch Bol (pos, inp, caps) = (if pos = 0 then [(pos, inp, caps)] else [])"
| "rmatch Eol (pos, inp, caps) = (if inp = [] then [(pos, inp, caps)] else [])"
| "rmatch (Lit s) (pos, inp, caps) =
     (if take (length s) inp = s then [(pos + length s, drop (length s) inp, caps)] else [])"
| "rmatch (One P) (pos, inp, caps) =
     (case inp of [] \<Rightarrow> [] | c # cs \<Rightarrow> if P c then [(Suc pos, cs, caps)] else [])"
| "rmatch (Plus P) (pos, inp, caps) =
     map (\<lambda>k. (pos + k, drop k inp, caps)) (rev [1 ..< Suc (length (takeWhile P inp))])"
| "rmatch (Cat a b) st = concat (map (rmatch b) (rmatch a st))"
| "rmatch (Alt a b) st = rmatch a st @ rmatch b st"
| "rmatch (Opt a) st = rmatch a st @ [st]"
| "rmatch (Cap i a) (pos, inp, caps) =
     map (\<lambda>(pos', inp', caps'). (pos', inp', (i, take (pos' - pos) inp) # caps'))
       (rmatch a (pos, inp, caps))"

text \<open>The number of capturing groups of a pattern (\<^verbatim>\<open>NumSubexp\<close>).\<close>

fun NumSubexp :: "regex \<Rightarrow> nat" where
  "NumSubexp (Cat a b) = NumSubexp a + NumSubexp b"
| "NumSubexp (Alt a b) = NumSubexp a + NumSubexp b"
| "NumSubexp (Opt a) = NumSubexp a"
| "NumSubexp (Cap i a) = Suc (NumSubexp a)"
| "NumSubexp _ = 0"

text \<open>The leftmost position at which the pattern matches, and the first match there.\<close>

fun search :: "regex \<Rightarrow> nat \<Rightarrow> string \<Rightarrow> (string \<times> (nat \<times> string) list) option" where
  "search r pos inp =
     (case rmatch r (pos, inp, []) of
        (pos', _, caps) # _ \<Rightarrow> Some (take (pos' - pos) inp, caps)
      | [] \<Rightarrow> (case inp of [] \<Rightarrow> None | _ # rest \<Rightarrow> search r (Suc pos) rest))"

text \<open>
  \<^verbatim>\<open>FindStringSubmatch\<close>: nil (the empty list) when the pattern does not match, and otherwise
  the matched text followed by one entry for each capturing group, empty for a group that
  took no part in the match.
\<close>

definition FindStringSubmatch :: "regex \<Rightarrow> string \<Rightarrow> string list" where
  "FindStringSubmatch r line =
     (case search r 0 line of
        None \<Rightarrow> []
      | Some (whole, caps) \<Rightarrow>
          whole # map (\<lambda>i. case map_of caps i of Some s \<Rightarrow> s | None \<Rightarrow> [])
                    [1 ..< Suc (NumSubexp r)])"

text \<open>
  \<^verbatim>\<open>--- (PASS|FAIL|SKIP): (.+) \((\d+\.\d+)(?: seconds|s)\)\<close>
\<close>

definition regexStatus :: regex where
  "regexStatus = cat
     [Lit ''--- '', Cap 1 (Alt (Lit ''PASS'') (Alt (Lit ''FAIL'') (Lit ''SKIP''))), Lit '': '',
      Cap 2 (Plus cls_any), Lit '' ('',
      Cap 3 (cat [Plus cls_d, Lit ''.'', Plus cls_d]),
      Alt (Lit '' seconds'') (Lit ''s''), Lit '')'']"

text \<open>
  \<^verbatim>\<open>^(ok|FAIL)\s+([^ ]+)\s+(?:(\d+\.\d+)s|\(cached\)|(\[\w+ failed]))\<close>
  \<^verbatim>\<open>(?:\s+coverage:\s+(\d+\.\d+)%\sof\sstatements(?:\sin\s.+)?)?$\<close>
\<close>

definition regexResult :: regex where
  "regexResult = cat
     [Bol, Cap 1 (Alt (Lit ''ok'') (Lit ''FAIL'')), Plus cls_s, Cap 2 (Plus cls_not_space),
      Plus cls_s,
      Alt (Cat (Cap 3 (cat [Plus cls_d, Lit ''.'', Plus cls_d])) (Lit ''s''))
        (Alt (Lit ''(cached)'') (Cap 4 (cat [Lit ''['', Plus cls_w, Lit '' failed]'']))),
      Opt (cat [Plus cls_s, Lit ''coverage:'', Plus cls_s,
                Cap 5 (cat [Plus cls_d, Lit ''.'', Plus cls_d]), Lit ''%'', One cls_s,
                Lit ''of'', One cls_s, Lit ''statements'',
                Opt (cat [One cls_s, Lit ''in'', One cls_s, Plus cls_any])]),
      Eol]"

section \<open>What the parser takes from outside\<close>

text \<open>
  The stream: \<^verbatim>\<open>reader.ReadLine()\<close> returns either a line or an error, never both. A stream
  is the list of lines it returns followed by the error that ends it, \<open>EOF\<close> being
  \<^verbatim>\<open>io.EOF\<close>. A long line that \<^verbatim>\<open>ReadLine\<close> returns in several pieces is several
  entries of the list, since \<^verbatim>\<open>Parse\<close> ignores the \<^verbatim>\<open>isPrefix\<close> result.
\<close>

datatype error = EOF | ReadError string

type_synonym reader = "string list \<times> error"

text \<open>
  Three things that \<^verbatim>\<open>Parse\<close> uses are not part of parser.go and are parameters here:
  \<^item> \<open>Unmarshal line\<close> is \<^verbatim>\<open>json.Unmarshal([]byte(line), &info)\<close> on a fresh
    \<^verbatim>\<open>Info\<close>: \<open>Some info\<close> when the error is nil, \<open>None\<close> otherwise;
  \<^item> \<open>ParseDuration s\<close> is \<^verbatim>\<open>time.ParseDuration(s)\<close>, the duration and whether there was
    an error;
  \<^item> \<open>range_choice n k\<close> settles the order of Go's map iteration: Go leaves the order of
    each \<^verbatim>\<open>range\<close> over a map open. While line \<open>n\<close> of the stream is handled,
    \<open>range_choice n 0\<close> orders the range over \<^verbatim>\<open>suites\<close> and \<open>range_choice n (Suc k)\<close>
    the range over the test map of the \<open>k\<close>-th suite visited.
\<close>

record extern =
  Unmarshal :: "string \<Rightarrow> Info option"
  ParseDuration :: "string \<Rightarrow> Duration \<times> bool"
  range_choice :: "nat \<Rightarrow> nat \<Rightarrow> nat list"

text \<open>
  \<open>range_order cs xs\<close> is the order in which a \<^verbatim>\<open>range\<close> visits the entries \<open>xs\<close> of a map
  under the choices \<open>cs\<close>: each choice picks the next entry among those not yet visited.
  Every list of choices gives a permutation of the entries and every permutation is given
  by some list of choices.
\<close>

function range_order :: "nat list \<Rightarrow> 'a list \<Rightarrow> 'a list" where
  "range_order cs [] = []"
| "range_order [] (x # xs) = x # xs"
| "range_order (c # cs) (x # xs) =
     (let i = c mod length (x # xs)
      in (x # xs) ! i # range_order cs (take i (x # xs) @ drop (Suc i) (x # xs)))"
  by pat_completeness auto
termination
  by (relation "measure (\<lambda>(cs, xs). length xs)") auto

section \<open>The parser\<close>

text \<open>
  A map of Go is a list of its entries with distinct keys; \<open>map_of\<close> looks a key up and
  \<open>AList.update\<close> stores a value under a key. The order of the list is never observed
  except through \<open>range_order\<close>.
\<close>

type_synonym testmap = "(string \<times> ptr) list"

record state =
  heap :: "Test list"
  report :: Report
  suites :: "(string \<times> testmap) list"
  cur :: "ptr option"

definition init :: state where
  "init = \<lparr>heap = [], report = \<lparr>Packages = []\<rparr>, suites = [], cur = None\<rparr>"

text \<open>\<^verbatim>\<open>path.Base\<close>, from Go's package path.\<close>

definition path_Base :: "string \<Rightarrow> string" where
  "path_Base path =
     (if path = [] then ''.''
      else let stripped = rev (dropWhile (\<lambda>c. c = CHR ''/'') (rev path));
               last_elem = rev (takeWhile (\<lambda>c. c \<noteq> CHR ''/'') (rev stripped))
           in if last_elem = [] then ''/'' else last_elem)"

definition parseSeconds :: "extern \<Rightarrow> string \<Rightarrow> Duration" where
  "parseSeconds E t = (if t = [] then 0 else fst (ParseDuration E (t @ ''s'')))"

text \<open>
  The flush of one suite (lines 108 to 119): the inner loop collects the pointers and adds
  up the durations, then the Package is built. \<^verbatim>\<open>suiteTime / time.Millisecond\<close> is int64
  division, which truncates towards zero; \<^verbatim>\<open>int\<close> is taken to be 64 bits wide.
\<close>

definition flush_tests :: "Test list \<Rightarrow> testmap \<Rightarrow> ptr list \<times> Duration" where
  "flush_tests h ordered =
     foldl (\<lambda>(finalTests, suiteTime) (test, testinfo).
              (finalTests @ [testinfo], suiteTime + Test_Duration (h ! testinfo)))
       ([], 0) ordered"

definition flush_suite :: "Test list \<Rightarrow> nat list \<Rightarrow> string \<times> testmap \<Rightarrow> Package" where
  "flush_suite h cs entry =
     (case entry of (suite, testmap) \<Rightarrow>
        (case flush_tests h (range_order cs testmap) of (finalTests, suiteTime) \<Rightarrow>
           \<lparr>Package_Name = suite, Package_Duration = suiteTime, Tests = finalTests,
            Benchmarks = [], CoveragePct = [],
            Package_Time = sint suiteTime sdiv sint Millisecond\<rparr>))"

definition flush :: "extern \<Rightarrow> nat \<Rightarrow> state \<Rightarrow> state" where
  "flush E n st =
     st\<lparr>report :=
          foldl (\<lambda>r (k, entry).
                   r\<lparr>Packages := Packages r @
                        [flush_suite (heap st) (range_choice E n (Suc k)) entry]\<rparr>)
            (report st) (enumerate 0 (range_order (range_choice E n 0) (suites st))),
        suites := []\<rparr>"

text \<open>The search of a status line (lines 126 to 136), over the entries in range order.\<close>

fun search_testmap :: "string \<Rightarrow> testmap \<Rightarrow> ptr option" where
  "search_testmap curTest [] = None"
| "search_testmap curTest ((test, testInfo) # rest) =
     (if test = curTest then Some testInfo else search_testmap curTest rest)"

fun search_suites ::
  "(nat \<Rightarrow> nat list) \<Rightarrow> string \<Rightarrow> nat \<Rightarrow> (string \<times> testmap) list \<Rightarrow> ptr option" where
  "search_suites ch curTest k [] = None"
| "search_suites ch curTest k ((suite, testmap) # rest) =
     (case search_testmap curTest (range_order (ch (Suc k)) testmap) of
        Some testdata \<Rightarrow> Some testdata
      | None \<Rightarrow> search_suites ch curTest (Suc k) rest)"

definition status_line :: "extern \<Rightarrow> nat \<Rightarrow> string list \<Rightarrow> state \<Rightarrow> state" where
  "status_line E n matches st =
     (let curTest = path_Base (matches ! 2)
      in case search_suites (range_choice E n) curTest 0
                (range_order (range_choice E n 0) (suites st)) of
           None \<Rightarrow> st\<lparr>cur := None\<rparr>
         | Some testdata \<Rightarrow>
             st\<lparr>heap := (heap st)[testdata := (heap st ! testdata)
                   \<lparr>Test_Result := (if matches ! 1 = ''PASS'' then PASS
                                    else if matches ! 1 = ''SKIP'' then SKIP else FAIL),
                    Test_Duration := parseSeconds E (matches ! 3)\<rparr>],
                cur := Some testdata\<rparr>)"

text \<open>A decoded output record (lines 155 to 173).\<close>

definition output_record :: "Info \<Rightarrow> state \<Rightarrow> state" where
  "output_record info st =
     (case map_of (suites st) (Info_Suite info) of
        Some testmap \<Rightarrow>
          (case map_of testmap (Info_Test info) of
             Some test \<Rightarrow>
               st\<lparr>heap := (heap st)[test := (heap st ! test)
                     \<lparr>Output := Output (heap st ! test) @ [Info_Msg info]\<rparr>]\<rparr>
           | None \<Rightarrow>
               st\<lparr>heap := heap st @ [(new_Test (Info_Test info))\<lparr>Output := [Info_Msg info]\<rparr>],
                  suites := AList.update (Info_Suite info)
                              (AList.update (Info_Test info) (length (heap st)) testmap)
                              (suites st)\<rparr>)
      | None \<Rightarrow>
          st\<lparr>heap := heap st @ [(new_Test (Info_Test info))\<lparr>Output := [Info_Msg info]\<rparr>],
             suites := AList.update (Info_Suite info)
                         [(Info_Test info, length (heap st))] (suites st)\<rparr>)"

text \<open>Any other line (lines 174 to 180).\<close>

definition other_line :: "string \<Rightarrow> state \<Rightarrow> state" where
  "other_line line st =
     (case cur st of
        None \<Rightarrow> st
      | Some c \<Rightarrow>
          if Test_Result (heap st ! c) = FAIL
          then st\<lparr>heap := (heap st)[c := (heap st ! c)\<lparr>Failure := Failure (heap st ! c) @ [line]\<rparr>]\<rparr>
          else if Test_Result (heap st ! c) = SKIP
          then st\<lparr>heap := (heap st)[c := (heap st ! c)\<lparr>SkipMsg := SkipMsg (heap st ! c) @ [line]\<rparr>]\<rparr>
          else st)"

text \<open>The body of the loop for line \<open>n\<close> of the stream (lines 96 to 180).\<close>

definition parse_line :: "extern \<Rightarrow> nat \<Rightarrow> string \<Rightarrow> state \<Rightarrow> state" where
  "parse_line E n line st =
     (if length (FindStringSubmatch regexResult line) = 6 then flush E n st
      else if length (FindStringSubmatch regexStatus line) = 4
      then status_line E n (FindStringSubmatch regexStatus line) st
      else case Unmarshal E line of
             Some info \<Rightarrow> output_record info st
           | None \<Rightarrow> other_line line st)"

text \<open>
  The loop (lines 88 to 181) from line \<open>n\<close> of the stream on, and \<^verbatim>\<open>Parse\<close>. On
  \<^verbatim>\<open>io.EOF\<close> the loop ends and the report is returned; on any other error \<^verbatim>\<open>Parse\<close>
  returns nil and the error. The report is returned together with the store that its
  \<^verbatim>\<open>*Test\<close> pointers refer to.
\<close>

fun Parse_loop :: "extern \<Rightarrow> nat \<Rightarrow> string list \<Rightarrow> error \<Rightarrow> state \<Rightarrow> error + state" where
  "Parse_loop E n [] err st = (if err = EOF then Inr st else Inl err)"
| "Parse_loop E n (l # ls) err st = Parse_loop E (Suc n) ls err (parse_line E n l st)"

definition Parse :: "extern \<Rightarrow> reader \<Rightarrow> string \<Rightarrow> error + (Report \<times> Test list)" where
  "Parse E r pkgName =
     (case Parse_loop E 0 (fst r) (snd r) init of
        Inl err \<Rightarrow> Inl err
      | Inr st \<Rightarrow> Inr (report st, heap st))"

text \<open>\<^verbatim>\<open>Failures\<close> (lines 258 to 270), on a report and the store of its tests.\<close>

definition Failures :: "Test list \<Rightarrow> Report \<Rightarrow> int" where
  "Failures h r =
     foldl (\<lambda>count p.
              foldl (\<lambda>count t. if Test_Result (h ! t) = FAIL then count + 1 else count)
                count (Tests p))
       0 (Packages r)"

section \<open>The library functions, for concrete runs\<close>

text \<open>
  The theorems about the parser hold for every \<open>extern\<close>. To run the parser on concrete
  streams, this section models the two library functions on the inputs such runs need.

  \<open>go_Unmarshal\<close> follows \<^verbatim>\<open>json.Unmarshal\<close> of Go's encoding/json into a struct with the
  three string fields of \<^verbatim>\<open>Info\<close>: the whole input must be one JSON value between optional
  white space (at most 10000 levels of nesting); the value \<^verbatim>\<open>null\<close> leaves the struct as it
  is; an object stores each member whose key is a field name, compared without regard to
  case, when its value is a string, skips it when its value is \<^verbatim>\<open>null\<close>, and reports an
  error for any other value; members with other keys are skipped; a field with no member
  keeps its zero value, the empty string; any other top-level value is an error.
\<close>

datatype json = JNull | JBool bool | JNumber string | JString string
  | JArray "json list" | JObject "(string \<times> json) list"

definition isSpace :: "char \<Rightarrow> bool" where
  "isSpace c = (c \<in> set [CHR '' '', CHR 0x09, CHR 0x0D, CHR 0x0A])"

definition skip_space :: "string \<Rightarrow> string" where
  "skip_space s = dropWhile isSpace s"

definition isDigit :: "char \<Rightarrow> bool" where
  "isDigit c = (c \<in> set ''0123456789'')"

definition scan_exp :: "string \<Rightarrow> string option" where
  "scan_exp s =
     (case s of
        c # r \<Rightarrow>
          if c = CHR ''e'' \<or> c = CHR ''E''
          then (let r' = (case r of x # y \<Rightarrow> if x = CHR ''+'' \<or> x = CHR ''-'' then y else r
                                  | [] \<Rightarrow> r)
                in if takeWhile isDigit r' = [] then None else Some (dropWhile isDigit r'))
          else Some s
      | [] \<Rightarrow> Some s)"

definition scan_frac :: "string \<Rightarrow> string option" where
  "scan_frac s =
     (case s of
        c # r \<Rightarrow>
          if c = CHR ''.''
          then (if takeWhile isDigit r = [] then None else scan_exp (dropWhile isDigit r))
          else scan_exp s
      | [] \<Rightarrow> Some s)"

definition scan_number :: "string \<Rightarrow> string option" where
  "scan_number s =
     (let s1 = (case s of c # r \<Rightarrow> if c = CHR ''-'' then r else s | [] \<Rightarrow> s)
      in case s1 of
           c # r \<Rightarrow>
             if c = CHR ''0'' then scan_frac r
             else if isDigit c then scan_frac (dropWhile isDigit r)
             else None
         | [] \<Rightarrow> None)"

text \<open>
  String literals: the escapes, \<^verbatim>\<open>\uXXXX\<close> with UTF-16 surrogate pairs, and the replacement
  of malformed UTF-8 by U+FFFD. \<open>rune_len\<close> is the length of the well-formed UTF-8 sequence
  at the head of a string, 0 when there is none.
\<close>

definition hexval :: "char \<Rightarrow> nat option" where
  "hexval c = map_of (zip ''0123456789abcdefABCDEF''
                        [0, 1, 2, 3, 4, 5, 6, 7, 8, 9, 10, 11, 12, 13, 14, 15, 10, 11, 12, 13, 14, 15]) c"

definition getu4 :: "string \<Rightarrow> nat option" where
  "getu4 s =
     (case s of
        b # u # h1 # h2 # h3 # h4 # _ \<Rightarrow>
          if b = CHR 0x5C \<and> u = CHR ''u'' then
            (case (hexval h1, hexval h2, hexval h3, hexval h4) of
               (Some a, Some b, Some c, Some d) \<Rightarrow> Some (((a * 16 + b) * 16 + c) * 16 + d)
             | _ \<Rightarrow> None)
          else None
      | _ \<Rightarrow> None)"

definition EncodeRune :: "nat \<Rightarrow> string" where
  "EncodeRune r =
     (if r < 0x80 then [char_of r]
      else if r < 0x800 then [char_of (0xC0 + r div 64), char_of (0x80 + r mod 64)]
      else if r < 0x10000 then
        [char_of (0xE0 + r div 4096), char_of (0x80 + r div 64 mod 64), char_of (0x80 + r mod 64)]
      else [char_of (0xF0 + r div 262144), char_of (0x80 + r div 4096 mod 64),
            char_of (0x80 + r div 64 mod 64), char_of (0x80 + r mod 64)])"

definition ReplacementChar :: nat where "ReplacementChar = 0xFFFD"

definition in_range :: "nat \<Rightarrow> nat \<Rightarrow> char \<Rightarrow> bool" where
  "in_range lo hi c = (lo \<le> of_char c \<and> of_char c \<le> (hi::nat))"

definition rune_len :: "string \<Rightarrow> nat" where
  "rune_len s =
     (case s of
        [] \<Rightarrow> 0
      | b0 # r \<Rightarrow>
          if in_range 0xC2 0xDF b0 then
            (case r of b1 # _ \<Rightarrow> if in_range 0x80 0xBF b1 then 2 else 0 | _ \<Rightarrow> 0)
          else if in_range 0xE0 0xEF b0 then
            (case r of
               b1 # b2 # _ \<Rightarrow>
                 if in_range (if b0 = CHR 0xE0 then 0xA0 else 0x80)
                      (if b0 = CHR 0xED then 0x9F else 0xBF) b1 \<and> in_range 0x80 0xBF b2
                 then 3 else 0
             | _ \<Rightarrow> 0)
          else if in_range 0xF0 0xF4 b0 then
            (case r of
               b1 # b2 # b3 # _ \<Rightarrow>
                 if in_range (if b0 = CHR 0xF0 then 0x90 else 0x80)
                      (if b0 = CHR 0xF4 then 0x8F else 0xBF) b1 \<and> in_range 0x80 0xBF b2
                    \<and> in_range 0x80 0xBF b3
                 then 4 else 0
             | _ \<Rightarrow> 0)
          else 0)"

fun scan_string :: "string \<Rightarrow> string \<Rightarrow> (string \<times> string) option" where
  "scan_string acc [] = None"
| "scan_string acc (c # cs) =
     (if c = CHR 0x22 then Some (acc, cs)
      else if c = CHR 0x5C then
        (case cs of
           [] \<Rightarrow> None
         | e # es \<Rightarrow>
             if e = CHR ''u'' then
               (case getu4 (c # cs) of
                  None \<Rightarrow> None
                | Some rr \<Rightarrow>
                    if 0xD800 \<le> rr \<and> rr < 0xE000 then
                      (case getu4 (drop 4 es) of
                         Some rr1 \<Rightarrow>
                           if rr < 0xDC00 \<and> 0xDC00 \<le> rr1 \<and> rr1 < 0xE000
                           then scan_string
                                  (acc @ EncodeRune ((rr - 0xD800) * 1024 + (rr1 - 0xDC00) + 0x10000))
                                  (drop 10 es)
                           else scan_string (acc @ EncodeRune ReplacementChar) (drop 4 es)
                       | None \<Rightarrow> scan_string (acc @ EncodeRune ReplacementChar) (drop 4 es))
                    else scan_string (acc @ EncodeRune rr) (drop 4 es))
             else (case map_of (zip [CHR 0x22, CHR 0x5C, CHR ''/'', CHR ''b'', CHR ''f'', CHR ''n'',
                                     CHR ''r'', CHR ''t'']
                                    [CHR 0x22, CHR 0x5C, CHR ''/'', CHR 0x08, CHR 0x0C, CHR 0x0A,
                                     CHR 0x0D, CHR 0x09]) e of
                     None \<Rightarrow> None
                   | Some x \<Rightarrow> scan_string (acc @ [x]) es))
      else if (of_char c :: nat) < 0x20 then None
      else if (of_char c :: nat) < 0x80 then scan_string (acc @ [c]) cs
      else if rune_len (c # cs) = 0 then scan_string (acc @ EncodeRune ReplacementChar) cs
      else scan_string (acc @ take (rune_len (c # cs)) (c # cs)) (drop (rune_len (c # cs)) (c # cs)))"


text \<open>
  The JSON grammar. \<open>parse_value d s\<close> reads one value at nesting depth \<open>d\<close> from the head
  of \<open>s\<close> and returns it with the rest of the input. The comparisons of lengths in
  \<open>parse_elements\<close> and \<open>parse_members\<close> always succeed (each value read is at least one
  character long); they are what the termination proof rests on.
\<close>

function parse_value :: "nat \<Rightarrow> string \<Rightarrow> (json \<times> string) option"
  and parse_elements :: "nat \<Rightarrow> string \<Rightarrow> (json list \<times> string) option"
  and parse_members :: "nat \<Rightarrow> string \<Rightarrow> ((string \<times> json) list \<times> string) option"
where
  "parse_value d s =
     (case skip_space s of
        [] \<Rightarrow> None
      | c # cs \<Rightarrow>
          if c = CHR ''{'' then
            (if 10000 < Suc d then None
             else case skip_space cs of
                    [] \<Rightarrow> None
                  | c' # r \<Rightarrow>
                      if c' = CHR ''}'' then Some (JObject [], r)
                      else (case parse_members (Suc d) cs of
                              None \<Rightarrow> None
                            | Some (ms, r') \<Rightarrow> Some (JObject ms, r')))
          else if c = CHR ''['' then
            (if 10000 < Suc d then None
             else case skip_space cs of
                    [] \<Rightarrow> None
                  | c' # r \<Rightarrow>
                      if c' = CHR '']'' then Some (JArray [], r)
                      else (case parse_elements (Suc d) cs of
                              None \<Rightarrow> None
                            | Some (vs, r') \<Rightarrow> Some (JArray vs, r')))
          else if c = CHR 0x22 then
            (case scan_string [] cs of
               None \<Rightarrow> None
             | Some (str, r) \<Rightarrow> Some (JString str, r))
          else if take 4 (c # cs) = ''true'' then Some (JBool True, drop 4 (c # cs))
          else if take 5 (c # cs) = ''false'' then Some (JBool False, drop 5 (c # cs))
          else if take 4 (c # cs) = ''null'' then Some (JNull, drop 4 (c # cs))
          else (case scan_number (c # cs) of
                  None \<Rightarrow> None
                | Some r \<Rightarrow> Some (JNumber (take (length (c # cs) - length r) (c # cs)), r)))"
| "parse_elements d s =
     (case parse_value d s of
        None \<Rightarrow> None
      | Some (v, r) \<Rightarrow>
          (case skip_space r of
             [] \<Rightarrow> None
           | c # r' \<Rightarrow>
               if c = CHR '']'' then Some ([v], r')
               else if c = CHR '','' \<and> length r' < length s then
                 (case parse_elements d r' of
                    None \<Rightarrow> None
                  | Some (vs, r'') \<Rightarrow> Some (v # vs, r''))
               else None))"
| "parse_members d s =
     (case skip_space s of
        [] \<Rightarrow> None
      | q # cs \<Rightarrow>
          if q = CHR 0x22 then
            (case scan_string [] cs of
               None \<Rightarrow> None
             | Some (key, r) \<Rightarrow>
                 (case skip_space r of
                    [] \<Rightarrow> None
                  | c # r1 \<Rightarrow>
                      if c = CHR '':'' \<and> length r1 < length s then
                        (case parse_value d r1 of
                           None \<Rightarrow> None
                         | Some (v, r2) \<Rightarrow>
                             (case skip_space r2 of
                                [] \<Rightarrow> None
                              | c' # r3 \<Rightarrow>
                                  if c' = CHR ''}'' then Some ([(key, v)], r3)
                                  else if c' = CHR '','' \<and> length r3 < length s then
                                    (case parse_members d r3 of
                                       None \<Rightarrow> None
                                     | Some (ms, r4) \<Rightarrow> Some ((key, v) # ms, r4))
                                  else None))
                      else None))
          else None)"
  by pat_completeness auto
termination
proof -
  have shorter: "length cs < length s" if "skip_space s = c # cs" for s cs and c :: char
  proof -
    from that have "Suc (length cs) = length (dropWhile isSpace s)"
      by (simp add: skip_space_def)
    also have "\<dots> \<le> length s"
      by (rule length_dropWhile_le)
    finally show ?thesis by simp
  qed
  show ?thesis
    by (relation "measure (\<lambda>x. case x of
           Inl (d, s) \<Rightarrow> 2 * length s
         | Inr (Inl (d, s)) \<Rightarrow> 2 * length s + 1
         | Inr (Inr (d, s)) \<Rightarrow> 2 * length s + 1)")
      (auto dest: shorter)
qed

text \<open>
  The folded form of a key, under which it is compared with the field names: ASCII letters
  in upper case, and the two letters outside ASCII that fold to an ASCII letter (the long s,
  U+017F, and the Kelvin sign, U+212A) replaced by it.
\<close>

definition fold_char :: "char \<Rightarrow> char" where
  "fold_char c =
     (case map_of (zip ''abcdefghijklmnopqrstuvwxyz'' ''ABCDEFGHIJKLMNOPQRSTUVWXYZ'') c of
        Some u \<Rightarrow> u
      | None \<Rightarrow> c)"

fun foldName :: "string \<Rightarrow> string" where
  "foldName [] = []"
| "foldName (c # cs) =
     (if take 2 (c # cs) = [CHR 0xC5, CHR 0xBF] then CHR ''S'' # foldName (drop 1 cs)
      else if take 3 (c # cs) = [CHR 0xE2, CHR 0x84, CHR 0xAA] then CHR ''K'' # foldName (drop 2 cs)
      else fold_char c # foldName cs)"

definition store_member :: "Info \<times> bool \<Rightarrow> string \<times> json \<Rightarrow> Info \<times> bool" where
  "store_member acc m =
     (case acc of (info, failed) \<Rightarrow>
        (case m of (key, v) \<Rightarrow>
           if foldName key \<notin> set [''SUITE'', ''TEST'', ''MSG''] then (info, failed)
           else (case v of
                   JNull \<Rightarrow> (info, failed)
                 | JString str \<Rightarrow>
                     (if foldName key = ''SUITE'' then info\<lparr>Info_Suite := str\<rparr>
                      else if foldName key = ''TEST'' then info\<lparr>Info_Test := str\<rparr>
                      else info\<lparr>Info_Msg := str\<rparr>, failed)
                 | _ \<Rightarrow> (info, True))))"

definition go_Unmarshal :: "string \<Rightarrow> Info option" where
  "go_Unmarshal line =
     (case parse_value 0 line of
        None \<Rightarrow> None
      | Some (v, r) \<Rightarrow>
          if skip_space r \<noteq> [] then None
          else (case v of
                  JNull \<Rightarrow> Some \<lparr>Info_Suite = [], Info_Test = [], Info_Msg = []\<rparr>
                | JObject ms \<Rightarrow>
                    (case foldl store_member
                            (\<lparr>Info_Suite = [], Info_Test = [], Info_Msg = []\<rparr>, False) ms of
                       (info, failed) \<Rightarrow> if failed then None else Some info)
                | _ \<Rightarrow> None))"

text \<open>
  \<open>go_ParseDuration\<close> follows \<^verbatim>\<open>time.ParseDuration\<close> on the strings \<^verbatim>\<open>parseSeconds\<close> passes it
  from \<^verbatim>\<open>Parse\<close>: decimal digits, optionally a point and more digits, and the unit \<^verbatim>\<open>s\<close>. The
  result is in nanoseconds; a value beyond the int64 range is an error, and an error comes
  with the duration 0. Go computes the fraction in floating point, which is exact up to nine
  digits after the point; beyond nine digits this model truncates where Go may round. On
  strings of any other shape (a sign, another unit, several units) it is not a model of the
  library function.
\<close>

definition digits_value :: "string \<Rightarrow> nat" where
  "digits_value ds = foldl (\<lambda>x c. x * 10 + (of_char c - of_char CHR ''0'')) 0 ds"

definition go_ParseDuration :: "string \<Rightarrow> Duration \<times> bool" where
  "go_ParseDuration s =
     (let ip = takeWhile isDigit s; r1 = dropWhile isDigit s;
          fp = (case r1 of c # r2 \<Rightarrow> if c = CHR ''.'' then takeWhile isDigit r2 else [] | [] \<Rightarrow> []);
          unit = (case r1 of c # r2 \<Rightarrow> if c = CHR ''.'' then dropWhile isDigit r2 else r1 | [] \<Rightarrow> []);
          d = digits_value ip * 1000000000 + digits_value fp * 1000000000 div 10 ^ length fp
      in if (ip = [] \<and> fp = []) \<or> unit \<noteq> ''s'' \<or> 9223372036 < digits_value ip
            \<or> 9223372036854775807 < d
         then (0, True) else (of_nat d, False))"

definition go_extern :: "(nat \<Rightarrow> nat \<Rightarrow> nat list) \<Rightarrow> extern" where
  "go_extern ch = \<lparr>Unmarshal = go_Unmarshal, ParseDuration = go_ParseDuration, range_choice = ch\<rparr>"

section \<open>Notions used to state the properties\<close>

text \<open>The state after the lines \<open>ls\<close>, which are the lines \<open>n\<close>, \<open>n + 1\<close>, ... of the stream.\<close>

fun run :: "extern \<Rightarrow> nat \<Rightarrow> string list \<Rightarrow> state \<Rightarrow> state" where
  "run E n [] st = st"
| "run E n (l # ls) st = run E (Suc n) ls (parse_line E n l st)"

text \<open>The three classes of lines that \<open>parse_line\<close> tells apart before the fallback.\<close>

definition is_result_line :: "string \<Rightarrow> bool" where
  "is_result_line line = (length (FindStringSubmatch regexResult line) = 6)"

definition is_status_line :: "string \<Rightarrow> bool" where
  "is_status_line line =
     (\<not> is_result_line line \<and> length (FindStringSubmatch regexStatus line) = 4)"

definition is_output_record :: "extern \<Rightarrow> string \<Rightarrow> bool" where
  "is_output_record E line =
     (\<not> is_result_line line \<and> length (FindStringSubmatch regexStatus line) \<noteq> 4
      \<and> Unmarshal E line \<noteq> None)"

text \<open>The test name that a status line is looked up under.\<close>

definition status_name :: "string \<Rightarrow> string" where
  "status_name line = path_Base (FindStringSubmatch regexStatus line ! 2)"

text \<open>The pointers held by the accumulation buffer and by the report.\<close>

definition suite_ptrs :: "(string \<times> testmap) list \<Rightarrow> ptr set" where
  "suite_ptrs ss = (\<Union>entry \<in> set ss. snd ` set (snd entry))"

definition report_ptrs :: "Report \<Rightarrow> ptr set" where
  "report_ptrs r = (\<Union>p \<in> set (Packages r). set (Tests p))"

text \<open>
  The invariant of the loop: the keys of each map are distinct; every test in the buffer is
  allocated and is stored under its own name; the pointers of the report and the current
  test are allocated; no test is both in the buffer and in the report.
\<close>

definition wf :: "state \<Rightarrow> bool" where
  "wf st =
     (distinct (map fst (suites st))
      \<and> (\<forall>entry \<in> set (suites st).
            distinct (map fst (snd entry))
            \<and> (\<forall>kp \<in> set (snd entry).
                  snd kp < length (heap st) \<and> Test_Name (heap st ! snd kp) = fst kp))
      \<and> (\<forall>p \<in> report_ptrs (report st). p < length (heap st))
      \<and> (\<forall>c \<in> set_option (cur st). c < length (heap st))
      \<and> suite_ptrs (suites st) \<inter> report_ptrs (report st) = {})"

text \<open>
  The reading of rule 3 in the specification: the line as a whole is a JSON object with
  exactly the three members Suite, Test and Msg, each a string.
\<close>

definition spec_output_record :: "string \<Rightarrow> bool" where
  "spec_output_record line =
     (case parse_value 0 line of
        Some (JObject ms, r) \<Rightarrow>
          skip_space r = [] \<and> length ms = 3
          \<and> set (map fst ms) = {''Suite'', ''Test'', ''Msg''}
          \<and> list_all (\<lambda>m. case snd m of JString _ \<Rightarrow> True | _ \<Rightarrow> False) ms
      | _ \<Rightarrow> False)"

text \<open>The packages that a flush appends to the report, in the order of the range.\<close>

definition flushed :: "extern \<Rightarrow> nat \<Rightarrow> state \<Rightarrow> Package list" where
  "flushed E n st =
     map (\<lambda>(k, entry). flush_suite (heap st) (range_choice E n (Suc k)) entry)
       (enumerate 0 (range_order (range_choice E n 0) (suites st)))"

text \<open>The name, result and duration of a test.\<close>

definition verdict :: "Test \<Rightarrow> string \<times> Result \<times> Duration" where
  "verdict t = (Test_Name t, Test_Result t, Test_Duration t)"

text \<open>The indices of the capturing groups of a pattern.\<close>

fun groups :: "regex \<Rightarrow> nat set" where
  "groups (Cat a b) = groups a \<union> groups b"
| "groups (Alt a b) = groups a \<union> groups b"
| "groups (Opt a) = groups a"
| "groups (Cap i a) = insert i (groups a)"
| "groups _ = {}"

section \<open>Concrete runs\<close>

text \<open>
  The choice under which every range visits the entries in the order of the list, and the
  states of a run on an output record for the test TestFoo of package pkgA, followed by a
  status line that fails it.
\<close>

definition in_order :: "nat \<Rightarrow> nat \<Rightarrow> nat list" where
  "in_order n k = []"

definition sample_record :: string where
  \<open>sample_record = ''{"Suite":"pkgA","Test":"TestFoo","Msg":"hello"}''\<close>

definition sample_open :: state where
  "sample_open = run (go_extern in_order) 0 [sample_record] init"

definition sample_failed :: state where
  "sample_failed = run (go_extern in_order) 0 [sample_record, ''--- FAIL: TestFoo (0.02s)''] init"

text \<open>
  An output record whose message is itself the text of a status line, as a test prints it
  when it runs the tests of another package.
\<close>

definition status_in_record :: string where
  \<open>status_in_record = ''{"Suite":"pkgA","Test":"TestFoo","Msg":"--- PASS: TestFoo (0.01s)"}''\<close>

text \<open>An output record for a test of another package.\<close>

definition sample_record_B :: string where
  \<open>sample_record_B = ''{"Suite":"pkgB","Test":"TestBar","Msg":"world"}''\<close>

section \<open>Properties of the loop and of map iteration\<close>

lemma Parse_loop_run:
  "Parse_loop E n ls err st = (if err = EOF then Inr (run E n ls st) else Inl err)"
  by (induction ls arbitrary: n st) simp_all

lemma run_append: "run E n (xs @ ys) st = run E (n + length xs) ys (run E n xs st)"
  by (induction xs arbitrary: n st) simp_all

text \<open>
  \<open>range_order\<close> yields exactly the permutations of the entries: the model of the map
  iteration neither loses an order that Go may choose nor adds an entry.
\<close>

lemma mset_range_order: "mset (range_order cs xs) = mset xs"
proof (induction cs xs rule: range_order.induct)
  case (3 c cs x xs)
  define ys where "ys = x # xs"
  define i where "i = c mod length ys"
  have i: "i < length ys"
    by (simp add: i_def ys_def)
  have "mset (range_order (c # cs) ys) = mset (ys ! i # (take i ys @ drop (Suc i) ys))"
    using 3 by (simp add: ys_def i_def Let_def)
  also have "\<dots> = mset (take i ys @ ys ! i # drop (Suc i) ys)"
    by simp
  also have "\<dots> = mset ys"
    using id_take_nth_drop [OF i] by simp
  finally show ?case
    by (simp add: ys_def)
qed simp_all

lemma set_range_order: "set (range_order cs xs) = set xs"
  using mset_range_order [of cs xs] by (metis set_mset_mset)

lemma length_range_order: "length (range_order cs xs) = length xs"
  using mset_range_order [of cs xs] by (metis size_mset)

lemma range_order_complete:
  assumes "mset ys = mset xs"
  shows "\<exists>cs. range_order cs xs = ys"
  using assms
proof (induction ys arbitrary: xs)
  case Nil
  then show ?case by (intro exI [of _ "[]"]) simp
next
  case (Cons y ys)
  then have "y \<in> set xs"
    by (metis list.set_intros(1) set_mset_mset)
  then obtain i where i: "i < length xs" "xs ! i = y"
    by (auto simp: in_set_conv_nth)
  then obtain x xs' where xs: "xs = x # xs'"
    by (cases xs) auto
  have "xs = take i xs @ y # drop (Suc i) xs"
    using id_take_nth_drop [OF i(1)] i(2) by simp
  then have "mset xs = add_mset y (mset (take i xs @ drop (Suc i) xs))"
    by (metis mset.simps(2) mset_append union_mset_add_mset_right)
  with Cons.prems have "mset ys = mset (take i xs @ drop (Suc i) xs)"
    by simp
  from Cons.IH [OF this] obtain cs where cs: "range_order cs (take i xs @ drop (Suc i) xs) = ys"
    by blast
  have "range_order (i # cs) xs = y # ys"
    using i cs by (simp add: xs Let_def)
  then show ?case by blast
qed

section \<open>The flush\<close>

lemma flush_tests_foldl:
  "foldl (\<lambda>(finalTests, suiteTime) (test, testinfo).
            (finalTests @ [testinfo], suiteTime + Test_Duration (h ! testinfo)))
     (ft, t) ordered =
   (ft @ map snd ordered, t + sum_list (map (\<lambda>p. Test_Duration (h ! p)) (map snd ordered)))"
  by (induction ordered arbitrary: ft t) (auto simp: algebra_simps)

lemma flush_tests_eq:
  "flush_tests h ordered =
     (map snd ordered, sum_list (map (\<lambda>p. Test_Duration (h ! p)) (map snd ordered)))"
  by (simp add: flush_tests_def flush_tests_foldl)

lemma flush_suite_eq:
  "flush_suite h cs (suite, testmap) =
     \<lparr>Package_Name = suite,
      Package_Duration =
        sum_list (map (\<lambda>p. Test_Duration (h ! p)) (map snd (range_order cs testmap))),
      Tests = map snd (range_order cs testmap), Benchmarks = [], CoveragePct = [],
      Package_Time =
        sint (sum_list (map (\<lambda>p. Test_Duration (h ! p)) (map snd (range_order cs testmap))))
          sdiv 1000000\<rparr>"
  by (simp add: flush_suite_def flush_tests_eq Millisecond_def)

lemma flush_suite_sel:
  "Package_Name (flush_suite h cs entry) = fst entry"
  "Tests (flush_suite h cs entry) = map snd (range_order cs (snd entry))"
  "Package_Duration (flush_suite h cs entry) =
     sum_list (map (\<lambda>p. Test_Duration (h ! p)) (Tests (flush_suite h cs entry)))"
  "Benchmarks (flush_suite h cs entry) = []"
  "CoveragePct (flush_suite h cs entry) = []"
  by (cases entry; simp add: flush_suite_def flush_tests_eq)+

lemma flush_suite_Time:
  "Package_Time (flush_suite h cs entry) =
     sint (Package_Duration (flush_suite h cs entry)) sdiv 1000000"
proof -
  obtain suite tm where e: "entry = (suite, tm)" by (cases entry)
  show ?thesis
    unfolding e flush_suite_eq Package.simps ..
qed

lemma flush_foldl:
  "foldl (\<lambda>r (k, entry). r\<lparr>Packages := Packages r @ [g k entry]\<rparr>) r xs =
   r\<lparr>Packages := Packages r @ map (\<lambda>(k, entry). g k entry) xs\<rparr>"
  by (induction xs arbitrary: r) auto

lemma flush_eq:
  "flush E n st =
     st\<lparr>report := (report st)\<lparr>Packages := Packages (report st) @ flushed E n st\<rparr>,
        suites := []\<rparr>"
  by (simp add: flush_def flush_foldl flushed_def)

lemma flushed_nth:
  "flushed E n st =
     map (\<lambda>k. flush_suite (heap st) (range_choice E n (Suc k))
                (range_order (range_choice E n 0) (suites st) ! k))
       [0 ..< length (suites st)]"
  by (rule nth_equalityI) (simp_all add: flushed_def length_range_order nth_enumerate_eq)

lemma in_set_flushed:
  "p \<in> set (flushed E n st) \<longleftrightarrow>
   (\<exists>k entry. k < length (suites st)
      \<and> range_order (range_choice E n 0) (suites st) ! k = entry
      \<and> p = flush_suite (heap st) (range_choice E n (Suc k)) entry)"
  by (auto simp: flushed_nth)

lemma Tests_flush_suite: "set (Tests (flush_suite h cs entry)) = snd ` set (snd entry)"
  by (simp add: flush_suite_sel(2) set_range_order)

lemma flushed_ptrs: "(\<Union>p \<in> set (flushed E n st). set (Tests p)) = suite_ptrs (suites st)"
proof -
  let ?order = "range_order (range_choice E n 0) (suites st)"
  have "(\<Union>p \<in> set (flushed E n st). set (Tests p)) = (\<Union>entry \<in> set ?order. snd ` set (snd entry))"
  proof (intro equalityI subsetI)
    fix x assume "x \<in> (\<Union>p \<in> set (flushed E n st). set (Tests p))"
    then obtain k where "k < length (suites st)"
      "x \<in> set (Tests (flush_suite (heap st) (range_choice E n (Suc k)) (?order ! k)))"
      by (auto simp: in_set_flushed)
    then have "?order ! k \<in> set ?order" "x \<in> snd ` set (snd (?order ! k))"
      by (simp_all add: length_range_order Tests_flush_suite)
    then show "x \<in> (\<Union>entry \<in> set ?order. snd ` set (snd entry))" by blast
  next
    fix x assume "x \<in> (\<Union>entry \<in> set ?order. snd ` set (snd entry))"
    then obtain entry where e: "entry \<in> set ?order" "x \<in> snd ` set (snd entry)" by blast
    then obtain k where k: "k < length ?order" "?order ! k = entry"
      by (auto simp: in_set_conv_nth)
    then have "flush_suite (heap st) (range_choice E n (Suc k)) entry \<in> set (flushed E n st)"
      by (auto simp: in_set_flushed length_range_order)
    moreover have "x \<in> set (Tests (flush_suite (heap st) (range_choice E n (Suc k)) entry))"
      using e by (simp add: Tests_flush_suite)
    ultimately show "x \<in> (\<Union>p \<in> set (flushed E n st). set (Tests p))" by blast
  qed
  then show ?thesis
    by (simp add: suite_ptrs_def set_range_order)
qed

lemma report_ptrs_flush:
  "report_ptrs (report (flush E n st)) = report_ptrs (report st) \<union> suite_ptrs (suites st)"
  using flushed_ptrs [of E n st] by (simp add: flush_eq report_ptrs_def)

lemma flushed_names:
  "mset (map (\<lambda>p. (Package_Name p, mset (Tests p))) (flushed E n st)) =
   mset (map (\<lambda>entry. (fst entry, mset (map snd (snd entry)))) (suites st))"
proof -
  let ?order = "range_order (range_choice E n 0) (suites st)"
  have t: "mset (map snd (range_order cs tm)) = mset (map snd tm)" for cs and tm :: testmap
    by (simp add: mset_range_order)
  have "map (\<lambda>p. (Package_Name p, mset (Tests p))) (flushed E n st) =
        map (\<lambda>entry. (fst entry, mset (map snd (snd entry)))) ?order"
    by (rule nth_equalityI)
      (simp_all add: flushed_nth length_range_order flush_suite_sel(1,2) t del: mset_map)
  then have "mset (map (\<lambda>p. (Package_Name p, mset (Tests p))) (flushed E n st)) =
      image_mset (\<lambda>entry. (fst entry, mset (map snd (snd entry)))) (mset ?order)"
    by simp
  then show ?thesis
    by (simp add: mset_range_order)
qed

lemma flushed_duration:
  assumes "p \<in> set (flushed E n st)"
  shows "Package_Duration p = sum_list (map (\<lambda>t. Test_Duration (heap st ! t)) (Tests p))"
    and "Package_Time p = sint (Package_Duration p) sdiv 1000000"
    and "CoveragePct p = []" and "Benchmarks p = []"
proof -
  from assms have "\<exists>k entry. p = flush_suite (heap st) (range_choice E n (Suc k)) entry"
    unfolding in_set_flushed by blast
  then obtain k entry where p: "p = flush_suite (heap st) (range_choice E n (Suc k)) entry"
    by blast
  show "Package_Duration p = sum_list (map (\<lambda>t. Test_Duration (heap st ! t)) (Tests p))"
    unfolding p by (rule flush_suite_sel(3))
  show "Package_Time p = sint (Package_Duration p) sdiv 1000000"
    unfolding p by (rule flush_suite_Time)
  show "CoveragePct p = []"
    unfolding p by (rule flush_suite_sel(5))
  show "Benchmarks p = []"
    unfolding p by (rule flush_suite_sel(4))
qed

lemma heap_flush: "heap (flush E n st) = heap st"
  by (simp add: flush_eq)

lemma cur_flush: "cur (flush E n st) = cur st"
  by (simp add: flush_eq)

section \<open>The search of a status line\<close>

lemma search_testmap_map_of: "search_testmap curTest tm = map_of tm curTest"
  by (induction tm) auto

lemma search_testmap_None: "search_testmap curTest tm = None \<longleftrightarrow> curTest \<notin> fst ` set tm"
  by (simp add: search_testmap_map_of map_of_eq_None_iff)

lemma search_testmap_Some: "search_testmap curTest tm = Some p \<Longrightarrow> (curTest, p) \<in> set tm"
  by (simp add: search_testmap_map_of map_of_SomeD)

lemma search_suites_None:
  "search_suites ch curTest k ss = None \<longleftrightarrow> (\<forall>entry \<in> set ss. curTest \<notin> fst ` set (snd entry))"
proof (induction ss arbitrary: k)
  case (Cons e ss)
  obtain suite tm where e: "e = (suite, tm)" by (cases e)
  show ?case
  proof (cases "search_testmap curTest (range_order (ch (Suc k)) tm)")
    case None
    then have "curTest \<notin> fst ` set tm"
      by (simp add: search_testmap_None set_range_order)
    with None Cons.IH [of "Suc k"] show ?thesis by (simp add: e)
  next
    case (Some q)
    then have "(curTest, q) \<in> set tm"
      using search_testmap_Some set_range_order by fastforce
    then have "curTest \<in> fst ` set tm" by force
    with Some show ?thesis by (simp add: e)
  qed
qed simp

lemma search_suites_Some:
  "search_suites ch curTest k ss = Some p \<Longrightarrow> \<exists>entry \<in> set ss. (curTest, p) \<in> set (snd entry)"
proof (induction ss arbitrary: k)
  case (Cons e ss)
  obtain suite tm where e: "e = (suite, tm)" by (cases e)
  show ?case
  proof (cases "search_testmap curTest (range_order (ch (Suc k)) tm)")
    case None
    with Cons e show ?thesis by auto
  next
    case (Some q)
    with Cons.prems e have "q = p" by simp
    with Some have "(curTest, p) \<in> set (range_order (ch (Suc k)) tm)"
      by (simp add: search_testmap_Some)
    then show ?thesis by (simp add: e set_range_order)
  qed
qed simp

section \<open>The patterns\<close>

lemma length_FindStringSubmatch:
  "length (FindStringSubmatch r line) = 0 \<or> length (FindStringSubmatch r line) = Suc (NumSubexp r)"
  by (simp add: FindStringSubmatch_def split: option.splits)

lemma search_in_rmatch:
  "search r pos inp = Some (whole, caps) \<Longrightarrow>
   \<exists>pos0 inp0 pos' inp'. (pos', inp', caps) \<in> set (rmatch r (pos0, inp0, []))"
proof (induction r pos inp rule: search.induct)
  case (1 r pos inp)
  show ?case
  proof (cases "rmatch r (pos, inp, [])")
    case Nil
    with 1 show ?thesis by (cases inp) auto
  next
    case (Cons m ms)
    obtain pos' inp' caps' where m: "m = (pos', inp', caps')" by (cases m)
    with Cons "1.prems" have "caps' = caps" by simp
    with Cons m have "(pos', inp', caps) \<in> set (rmatch r (pos, inp, []))" by simp
    then show ?thesis by blast
  qed
qed

lemma rmatch_caps:
  "(pos', inp', caps') \<in> set (rmatch r (pos, inp, caps)) \<Longrightarrow>
   \<exists>new. caps' = new @ caps \<and> fst ` set new \<subseteq> groups r"
proof (induction r arbitrary: pos inp caps pos' inp' caps')
  case (Cat a b)
  then obtain p1 i1 c1 where 1: "(p1, i1, c1) \<in> set (rmatch a (pos, inp, caps))"
    and 2: "(pos', inp', caps') \<in> set (rmatch b (p1, i1, c1))"
    by auto
  from Cat.IH(1) [OF 1] obtain n1 where "c1 = n1 @ caps" "fst ` set n1 \<subseteq> groups a" by blast
  moreover from Cat.IH(2) [OF 2] obtain n2 where "caps' = n2 @ c1" "fst ` set n2 \<subseteq> groups b"
    by blast
  ultimately have "caps' = (n2 @ n1) @ caps \<and> fst ` set (n2 @ n1) \<subseteq> groups (Cat a b)"
    by auto
  then show ?case by blast
next
  case (Alt a b)
  then show ?case by fastforce
next
  case (Opt a)
  then show ?case by fastforce
next
  case (Cap i a)
  then obtain c1 where 1: "(pos', inp', c1) \<in> set (rmatch a (pos, inp, caps))"
    and 2: "caps' = (i, take (pos' - pos) inp) # c1"
    by auto
  from Cap.IH [OF 1] obtain n1 where "c1 = n1 @ caps" "fst ` set n1 \<subseteq> groups a" by blast
  with 2 have "caps' = ((i, take (pos' - pos) inp) # n1) @ caps
      \<and> fst ` set ((i, take (pos' - pos) inp) # n1) \<subseteq> groups (Cap i a)"
    by auto
  then show ?case by blast
qed (auto split: if_splits list.splits)

lemma rmatch_keyword:
  assumes "(pos', inp', caps') \<in>
    set (rmatch (Cap 1 (Alt (Lit ''PASS'') (Alt (Lit ''FAIL'') (Lit ''SKIP'')))) (pos, inp, caps))"
  shows "\<exists>a. caps' = (1, a) # caps \<and> a \<in> {''PASS'', ''FAIL'', ''SKIP''}"
  using assms by (auto simp: eval_nat_numeral split: if_splits)

lemma NumSubexp_regexStatus: "NumSubexp regexStatus = 3"
  by (simp add: regexStatus_def cat_def)

lemma NumSubexp_regexResult: "NumSubexp regexResult = 5"
  by (simp add: regexResult_def cat_def)

lemma rmatch_Cat_iff:
  "x \<in> set (rmatch (Cat a b) st) \<longleftrightarrow> (\<exists>mid \<in> set (rmatch a st). x \<in> set (rmatch b mid))"
  by simp

lemma rmatch_Lit:
  assumes "(pos', inp', caps') \<in> set (rmatch (Lit s) (pos, inp, caps))"
  shows "caps' = caps"
  using assms by (auto split: if_splits)

lemma rmatch_no_groups:
  assumes "(pos', inp', caps') \<in> set (rmatch r (pos, inp, caps))" "groups r = {}"
  shows "caps' = caps"
  using rmatch_caps [OF assms(1)] assms(2) by auto

lemma rmatch_name:
  assumes "(pos', inp', caps') \<in> set (rmatch (Cap 2 (Plus cls_any)) (pos, inp, caps))"
  shows "\<exists>name. caps' = (2, name) # caps \<and> name \<noteq> []"
proof -
  from assms obtain k where k: "1 \<le> k" "k \<le> length (takeWhile cls_any inp)"
    and c: "caps' = (2, take k inp) # caps"
    by auto
  have "length (takeWhile cls_any inp) \<le> length inp"
    by (rule length_takeWhile_le)
  with k have "take k inp \<noteq> []"
    by auto
  with c show ?thesis by blast
qed

lemma take_digits:
  assumes "k \<le> length (takeWhile cls_d xs)"
  shows "set (take k xs) \<subseteq> set ''0123456789''"
proof -
  have "take k (takeWhile cls_d xs @ dropWhile cls_d xs) = take k (takeWhile cls_d xs)"
    using assms by (simp only: take_append diff_is_0_eq' take_0 append_Nil2)
  then have "take k xs = take k (takeWhile cls_d xs)"
    by (simp only: takeWhile_dropWhile_id)
  then have "set (take k xs) \<subseteq> set (takeWhile cls_d xs)"
    by (metis set_take_subset)
  moreover have "set (takeWhile cls_d xs) \<subseteq> {c. cls_d c}"
    by (auto dest: set_takeWhileD)
  ultimately show ?thesis
    unfolding cls_d_def by blast
qed

lemma rmatch_seconds:
  assumes "(pos', inp', caps') \<in>
    set (rmatch (Cap 3 (cat [Plus cls_d, Lit ''.'', Plus cls_d])) (pos, inp, caps))"
  shows "\<exists>d1 d2. caps' = (3, d1 @ ''.'' @ d2) # caps \<and> d1 \<noteq> [] \<and> d2 \<noteq> []
    \<and> set (d1 @ d2) \<subseteq> set ''0123456789''"
proof -
  from assms obtain k1 k2 where k1: "1 \<le> k1" "k1 \<le> length (takeWhile cls_d inp)"
    and dot: "take 1 (drop k1 inp) = ''.''"
    and k2: "1 \<le> k2" "k2 \<le> length (takeWhile cls_d (drop (Suc k1) inp))"
    and c: "caps' = (3, take (k1 + 1 + k2) inp) # caps"
    by (auto simp: cat_def split: if_splits)
  let ?d1 = "take k1 inp" and ?d2 = "take k2 (drop (Suc k1) inp)"
  have l1: "k1 \<le> length inp"
    using k1(2) length_takeWhile_le [of cls_d inp] by linarith
  have l2: "k2 \<le> length (drop (Suc k1) inp)"
    using k2(2) length_takeWhile_le [of cls_d "drop (Suc k1) inp"] by linarith
  have "take (k1 + (1 + k2)) inp = take k1 inp @ take (1 + k2) (drop k1 inp)"
    by (rule take_add)
  moreover have "take (1 + k2) (drop k1 inp) = take 1 (drop k1 inp) @ take k2 (drop 1 (drop k1 inp))"
    by (rule take_add)
  ultimately have "take (k1 + (1 + k2)) inp = ?d1 @ ''.'' @ ?d2"
    using dot by simp
  then have "take (k1 + 1 + k2) inp = ?d1 @ ''.'' @ ?d2"
    by (simp only: add.assoc)
  moreover have "?d1 \<noteq> []" using k1(1) l1 by auto
  moreover have "?d2 \<noteq> []" using k2(1) l2 by auto
  moreover have "set (?d1 @ ?d2) \<subseteq> set ''0123456789''"
    using take_digits [OF k1(2)] take_digits [OF k2(2)] by simp
  ultimately show ?thesis
    using c by blast
qed

lemma rmatch_regexStatus_groups:
  assumes "(pos', inp', caps) \<in> set (rmatch regexStatus (pos, inp, []))"
  shows "\<exists>kw name d1 d2. caps = [(3, d1 @ ''.'' @ d2), (2, name), (1, kw)]
    \<and> kw \<in> {''PASS'', ''FAIL'', ''SKIP''} \<and> name \<noteq> [] \<and> d1 \<noteq> [] \<and> d2 \<noteq> []
    \<and> set (d1 @ d2) \<subseteq> set ''0123456789''"
proof -
  define kw where "kw = Cap 1 (Alt (Lit ''PASS'') (Alt (Lit ''FAIL'') (Lit ''SKIP'')))"
  define nm where "nm = Cap 2 (Plus cls_any)"
  define secs where "secs = Cap 3 (cat [Plus cls_d, Lit ''.'', Plus cls_d])"
  define tail where "tail = Cat (Alt (Lit '' seconds'') (Lit ''s'')) (Cat (Lit '')'') Eps)"
  have r: "regexStatus =
      Cat (Lit ''--- '') (Cat kw (Cat (Lit '': '') (Cat nm (Cat (Lit '' ('') (Cat secs tail)))))"
    by (simp add: regexStatus_def cat_def kw_def nm_def secs_def tail_def)
  have g: "groups tail = {}"
    by (simp add: tail_def)
  from assms obtain s1 s2 s3 s4 s5 s6 where
      1: "s1 \<in> set (rmatch (Lit ''--- '') (pos, inp, []))"
    and 2: "s2 \<in> set (rmatch kw s1)"
    and 3: "s3 \<in> set (rmatch (Lit '': '') s2)"
    and 4: "s4 \<in> set (rmatch nm s3)"
    and 5: "s5 \<in> set (rmatch (Lit '' ('') s4)"
    and 6: "s6 \<in> set (rmatch secs s5)"
    and 7: "(pos', inp', caps) \<in> set (rmatch tail s6)"
    unfolding r rmatch_Cat_iff by blast
  obtain p1 i1 c1 where s1: "s1 = (p1, i1, c1)" by (cases s1)
  obtain p2 i2 c2 where s2: "s2 = (p2, i2, c2)" by (cases s2)
  obtain p3 i3 c3 where s3: "s3 = (p3, i3, c3)" by (cases s3)
  obtain p4 i4 c4 where s4: "s4 = (p4, i4, c4)" by (cases s4)
  obtain p5 i5 c5 where s5: "s5 = (p5, i5, c5)" by (cases s5)
  obtain p6 i6 c6 where s6: "s6 = (p6, i6, c6)" by (cases s6)
  have "c1 = []"
    using 1 unfolding s1 by (rule rmatch_Lit)
  with 2 obtain a where a: "c2 = [(1, a)]" "a \<in> {''PASS'', ''FAIL'', ''SKIP''}"
    using rmatch_keyword unfolding kw_def s1 s2 by blast
  have "c3 = c2"
    using 3 unfolding s2 s3 by (rule rmatch_Lit)
  with 4 obtain name where n: "c4 = (2, name) # c2" "name \<noteq> []"
    using rmatch_name unfolding nm_def s3 s4 by blast
  have "c5 = c4"
    using 5 unfolding s4 s5 by (rule rmatch_Lit)
  with 6 obtain d1 d2 where d: "c6 = (3, d1 @ ''.'' @ d2) # c4" "d1 \<noteq> []" "d2 \<noteq> []"
      "set (d1 @ d2) \<subseteq> set ''0123456789''"
    using rmatch_seconds unfolding secs_def s5 s6 by blast
  have "caps = c6"
    using 7 g unfolding s6 by (rule rmatch_no_groups)
  with a n d show ?thesis by blast
qed

lemma status_submatches:
  assumes "length (FindStringSubmatch regexStatus line) = 4"
  shows "\<exists>whole kw name d1 d2.
      FindStringSubmatch regexStatus line = [whole, kw, name, d1 @ ''.'' @ d2]
    \<and> kw \<in> {''PASS'', ''FAIL'', ''SKIP''} \<and> name \<noteq> [] \<and> d1 \<noteq> [] \<and> d2 \<noteq> []
    \<and> set (d1 @ d2) \<subseteq> set ''0123456789''"
proof -
  from assms obtain whole caps where s: "search regexStatus 0 line = Some (whole, caps)"
    by (auto simp: FindStringSubmatch_def simp del: search.simps split: option.splits)
  from search_in_rmatch [OF s] rmatch_regexStatus_groups
  obtain kw name d1 d2 where c: "caps = [(3, d1 @ ''.'' @ d2), (2, name), (1, kw)]"
    and p: "kw \<in> {''PASS'', ''FAIL'', ''SKIP''}" "name \<noteq> []" "d1 \<noteq> []" "d2 \<noteq> []"
      "set (d1 @ d2) \<subseteq> set ''0123456789''"
    by blast
  have "FindStringSubmatch regexStatus line = [whole, kw, name, d1 @ ''.'' @ d2]"
    unfolding FindStringSubmatch_def s NumSubexp_regexStatus
    by (simp add: c upt_rec)
  with p show ?thesis by blast
qed

section \<open>The invariant\<close>

lemma wf_init: "wf init"
  by (simp add: wf_def init_def suite_ptrs_def report_ptrs_def)

lemma wf_suite_entry:
  assumes "wf st" "(s, tm) \<in> set (suites st)" "(k, p) \<in> set tm"
  shows "p < length (heap st)" "Test_Name (heap st ! p) = k"
  using assms unfolding wf_def by fastforce+

lemma wf_cur: "wf st \<Longrightarrow> cur st = Some c \<Longrightarrow> c < length (heap st)"
  unfolding wf_def by simp

lemma wf_heap_update:
  assumes "wf st" "Test_Name t = Test_Name (heap st ! p)"
  shows "wf (st\<lparr>heap := (heap st)[p := t]\<rparr>)"
proof -
  have "Test_Name ((heap st)[p := t] ! q) = Test_Name (heap st ! q)" if "q < length (heap st)" for q
    using that assms(2) by (cases "q = p") simp_all
  with assms(1) show ?thesis
    unfolding wf_def by simp
qed

lemma wf_cur_update:
  assumes "wf st" "\<forall>c \<in> set_option c'. c < length (heap st)"
  shows "wf (st\<lparr>cur := c'\<rparr>)"
  using assms unfolding wf_def by simp

lemma wf_flush:
  assumes "wf st"
  shows "wf (flush E n st)"
proof -
  have "\<forall>p \<in> suite_ptrs (suites st). p < length (heap st)"
    using assms unfolding wf_def suite_ptrs_def by fastforce
  with assms show ?thesis
    unfolding wf_def report_ptrs_flush
    by (auto simp: flush_eq suite_ptrs_def)
qed

lemma wf_status_line:
  assumes "wf st"
  shows "wf (status_line E n matches st)"
proof (cases "search_suites (range_choice E n) (path_Base (matches ! 2)) 0
                (range_order (range_choice E n 0) (suites st))")
  case None
  with assms show ?thesis
    by (simp add: status_line_def wf_cur_update)
next
  case (Some p)
  from search_suites_Some [OF Some] obtain s tm where "(s, tm) \<in> set (suites st)"
    "(path_Base (matches ! 2), p) \<in> set tm"
    by (auto simp: set_range_order)
  with assms have p: "p < length (heap st)"
    by (rule wf_suite_entry)
  let ?t = "(heap st ! p)\<lparr>Test_Result :=
      (if matches ! 1 = ''PASS'' then PASS else if matches ! 1 = ''SKIP'' then SKIP else FAIL),
      Test_Duration := parseSeconds E (matches ! 3)\<rparr>"
  have "wf (st\<lparr>heap := (heap st)[p := ?t]\<rparr>)"
    using assms by (rule wf_heap_update) simp
  then have "wf (st\<lparr>heap := (heap st)[p := ?t]\<rparr>\<lparr>cur := Some p\<rparr>)"
    by (rule wf_cur_update) (simp add: p)
  with Some show ?thesis
    by (simp add: status_line_def)
qed

lemma wf_other_line:
  assumes "wf st"
  shows "wf (other_line line st)"
proof (cases "cur st")
  case None
  with assms show ?thesis by (simp add: other_line_def)
next
  case (Some c)
  have 1: "wf (st\<lparr>heap := (heap st)[c := (heap st ! c)\<lparr>Failure := Failure (heap st ! c) @ [line]\<rparr>]\<rparr>)"
    using assms by (rule wf_heap_update) simp
  have 2: "wf (st\<lparr>heap := (heap st)[c := (heap st ! c)\<lparr>SkipMsg := SkipMsg (heap st ! c) @ [line]\<rparr>]\<rparr>)"
    using assms by (rule wf_heap_update) simp
  from Some assms 1 2 show ?thesis
    by (simp add: other_line_def)
qed

lemma set_update_cases:
  "e \<in> set (AList.update k v al) \<Longrightarrow> e = (k, v) \<or> e \<in> set al"
  by (induction al) (auto split: if_splits)

lemma wf_alloc:
  assumes "wf st"
    and tm: "tm = [] \<or> (Info_Suite info, tm) \<in> set (suites st)"
  shows "wf (st\<lparr>heap := heap st @ [(new_Test (Info_Test info))\<lparr>Output := [Info_Msg info]\<rparr>],
               suites := AList.update (Info_Suite info)
                           (AList.update (Info_Test info) (length (heap st)) tm) (suites st)\<rparr>)"
    (is "wf ?st'")
proof -
  let ?h' = "heap st @ [(new_Test (Info_Test info))\<lparr>Output := [Info_Msg info]\<rparr>]"
  let ?tm' = "AList.update (Info_Test info) (length (heap st)) tm"
  have old: "p < length (heap st) \<and> Test_Name (heap st ! p) = k"
    if "(s, m) \<in> set (suites st)" "(k, p) \<in> set m" for s m k p
    using wf_suite_entry [OF assms(1) that] by simp
  have tm_old: "p < length (heap st) \<and> Test_Name (heap st ! p) = k" if "(k, p) \<in> set tm" for k p
    using tm that old by auto
  have tm_distinct: "distinct (map fst tm)"
    using tm assms(1) unfolding wf_def by fastforce
  have tm': "snd kp < length ?h' \<and> Test_Name (?h' ! snd kp) = fst kp" if "kp \<in> set ?tm'" for kp
  proof -
    from set_update_cases [OF that] show ?thesis
    proof
      assume "kp = (Info_Test info, length (heap st))"
      then show ?thesis by (simp add: new_Test_def)
    next
      assume "kp \<in> set tm"
      then have "snd kp < length (heap st) \<and> Test_Name (heap st ! snd kp) = fst kp"
        using tm_old [of "fst kp" "snd kp"] by simp
      then show ?thesis by (simp add: nth_append)
    qed
  qed
  have entries: "distinct (map fst (snd entry))
      \<and> (\<forall>kp \<in> set (snd entry). snd kp < length ?h' \<and> Test_Name (?h' ! snd kp) = fst kp)"
    if "entry \<in> set (suites ?st')" for entry
  proof -
    from that have "entry = (Info_Suite info, ?tm') \<or> entry \<in> set (suites st)"
      using set_update_cases by fastforce
    then show ?thesis
    proof
      assume "entry = (Info_Suite info, ?tm')"
      then show ?thesis
        using tm' tm_distinct by (simp add: distinct_update)
    next
      assume e: "entry \<in> set (suites st)"
      then have "distinct (map fst (snd entry))"
        using assms(1) unfolding wf_def by blast
      moreover have "snd kp < length ?h' \<and> Test_Name (?h' ! snd kp) = fst kp"
        if "kp \<in> set (snd entry)" for kp
      proof -
        have "snd kp < length (heap st) \<and> Test_Name (heap st ! snd kp) = fst kp"
          using old [of "fst entry" "snd entry" "fst kp" "snd kp"] e that by simp
        then show ?thesis by (simp add: nth_append)
      qed
      ultimately show ?thesis by blast
    qed
  qed
  have ptrs: "suite_ptrs (suites ?st') \<subseteq> insert (length (heap st)) (suite_ptrs (suites st))"
  proof
    fix p assume "p \<in> suite_ptrs (suites ?st')"
    then obtain entry kp where e: "entry \<in> set (suites ?st')" "kp \<in> set (snd entry)" "p = snd kp"
      unfolding suite_ptrs_def by auto
    from e(1) have "entry = (Info_Suite info, ?tm') \<or> entry \<in> set (suites st)"
      using set_update_cases by fastforce
    then show "p \<in> insert (length (heap st)) (suite_ptrs (suites st))"
    proof
      assume "entry = (Info_Suite info, ?tm')"
      with e(2) have "kp = (Info_Test info, length (heap st)) \<or> kp \<in> set tm"
        using set_update_cases by fastforce
      then show ?thesis
      proof
        assume "kp = (Info_Test info, length (heap st))"
        with e(3) show ?thesis by simp
      next
        assume "kp \<in> set tm"
        with tm have "(Info_Suite info, tm) \<in> set (suites st)" by auto
        with \<open>kp \<in> set tm\<close> e(3) show ?thesis
          unfolding suite_ptrs_def by force
      qed
    next
      assume "entry \<in> set (suites st)"
      with e show ?thesis unfolding suite_ptrs_def by force
    qed
  qed
  have rep: "\<forall>p \<in> report_ptrs (report st). p < length (heap st)"
    using assms(1) unfolding wf_def by blast
  have disj: "suite_ptrs (suites ?st') \<inter> report_ptrs (report st) = {}"
  proof -
    have "suite_ptrs (suites st) \<inter> report_ptrs (report st) = {}"
      using assms(1) unfolding wf_def by blast
    moreover have "length (heap st) \<notin> report_ptrs (report st)"
      using rep by blast
    ultimately show ?thesis using ptrs by blast
  qed
  have c: "\<forall>c \<in> set_option (cur st). c < length (heap st)"
    using assms(1) unfolding wf_def by blast
  have d: "distinct (map fst (suites ?st'))"
    using assms(1) unfolding wf_def by (simp add: distinct_update)
  show ?thesis
    unfolding wf_def
  proof (intro conjI)
    show "distinct (map fst (suites ?st'))" by (rule d)
    show "\<forall>entry \<in> set (suites ?st'). distinct (map fst (snd entry))
      \<and> (\<forall>kp \<in> set (snd entry). snd kp < length (heap ?st') \<and> Test_Name (heap ?st' ! snd kp) = fst kp)"
      using entries by simp
    show "\<forall>p \<in> report_ptrs (report ?st'). p < length (heap ?st')"
      using rep by (simp add: less_SucI)
    show "\<forall>c \<in> set_option (cur ?st'). c < length (heap ?st')"
      using c by (simp add: less_SucI)
    show "suite_ptrs (suites ?st') \<inter> report_ptrs (report ?st') = {}"
      using disj by simp
  qed
qed

lemma wf_output_record:
  assumes "wf st"
  shows "wf (output_record info st)"
proof (cases "map_of (suites st) (Info_Suite info)")
  case None
  have "wf (st\<lparr>heap := heap st @ [(new_Test (Info_Test info))\<lparr>Output := [Info_Msg info]\<rparr>],
               suites := AList.update (Info_Suite info)
                           (AList.update (Info_Test info) (length (heap st)) []) (suites st)\<rparr>)"
    using assms by (rule wf_alloc) simp
  with None show ?thesis
    by (simp add: output_record_def)
next
  case (Some tm)
  then have e: "(Info_Suite info, tm) \<in> set (suites st)"
    by (rule map_of_SomeD)
  show ?thesis
  proof (cases "map_of tm (Info_Test info)")
    case None
    have "wf (st\<lparr>heap := heap st @ [(new_Test (Info_Test info))\<lparr>Output := [Info_Msg info]\<rparr>],
                 suites := AList.update (Info_Suite info)
                             (AList.update (Info_Test info) (length (heap st)) tm) (suites st)\<rparr>)"
      using assms by (rule wf_alloc) (simp add: e)
    with None Some show ?thesis
      by (simp add: output_record_def)
  next
    case (Some p)
    have "wf (st\<lparr>heap := (heap st)[p := (heap st ! p)\<lparr>Output := Output (heap st ! p) @ [Info_Msg info]\<rparr>]\<rparr>)"
      using assms by (rule wf_heap_update) simp
    with Some \<open>map_of (suites st) (Info_Suite info) = Some tm\<close> show ?thesis
      by (simp add: output_record_def)
  qed
qed

lemma wf_parse_line: "wf st \<Longrightarrow> wf (parse_line E n line st)"
  by (simp add: parse_line_def wf_flush wf_status_line wf_output_record wf_other_line
      split: option.splits)

lemma wf_run: "wf st \<Longrightarrow> wf (run E n ls st)"
  by (induction ls arbitrary: n st) (simp_all add: wf_parse_line)

section \<open>The four kinds of lines\<close>

lemma parse_line_result: "is_result_line line \<Longrightarrow> parse_line E n line st = flush E n st"
  by (simp add: parse_line_def is_result_line_def)

lemma parse_line_status:
  "is_status_line line \<Longrightarrow>
   parse_line E n line st = status_line E n (FindStringSubmatch regexStatus line) st"
  by (simp add: parse_line_def is_status_line_def is_result_line_def)

lemma parse_line_other:
  "\<not> is_result_line line \<Longrightarrow> \<not> is_status_line line \<Longrightarrow> Unmarshal E line = None \<Longrightarrow>
   parse_line E n line st = other_line line st"
  by (simp add: parse_line_def is_status_line_def is_result_line_def)

lemma parse_line_record:
  "is_output_record E line \<Longrightarrow> Unmarshal E line = Some info \<Longrightarrow>
   parse_line E n line st = output_record info st"
  by (simp add: parse_line_def is_output_record_def is_result_line_def)

lemma report_parse_line:
  "\<not> is_result_line line \<Longrightarrow> report (parse_line E n line st) = report st"
  by (simp add: parse_line_def is_result_line_def status_line_def output_record_def
      other_line_def Let_def split: option.splits)

lemma report_run:
  "\<forall>l \<in> set ls. \<not> is_result_line l \<Longrightarrow> report (run E n ls st) = report st"
  by (induction ls arbitrary: n st) (simp_all add: report_parse_line)

lemma report_eq_parse_line:
  "report (parse_line E n line st) =
     (if is_result_line line
      then (report st)\<lparr>Packages := Packages (report st) @ flushed E n st\<rparr> else report st)"
  by (simp add: report_parse_line parse_line_result flush_eq)

lemma output_record_cases:
  "(\<exists>q. q < length (heap st) \<and> output_record info st =
       st\<lparr>heap := (heap st)[q := (heap st ! q)\<lparr>Output := Output (heap st ! q) @ [Info_Msg info]\<rparr>]\<rparr>
       \<and> (\<exists>tm. map_of (suites st) (Info_Suite info) = Some tm \<and> map_of tm (Info_Test info) = Some q))
   \<or> (heap (output_record info st) =
         heap st @ [(new_Test (Info_Test info))\<lparr>Output := [Info_Msg info]\<rparr>]
       \<and> Info_Test info \<notin> fst ` set (case map_of (suites st) (Info_Suite info) of
                                          None \<Rightarrow> [] | Some tm \<Rightarrow> tm))"
  if "wf st"
proof (cases "map_of (suites st) (Info_Suite info)")
  case None
  then show ?thesis by (simp add: output_record_def)
next
  case (Some tm)
  show ?thesis
  proof (cases "map_of tm (Info_Test info)")
    case None
    then have "Info_Test info \<notin> fst ` set tm"
      by (simp add: map_of_eq_None_iff)
    with None Some show ?thesis
      by (simp add: output_record_def)
  next
    case (Some q)
    from \<open>map_of (suites st) (Info_Suite info) = Some tm\<close> Some
    have "(Info_Suite info, tm) \<in> set (suites st)" "(Info_Test info, q) \<in> set tm"
      by (simp_all add: map_of_SomeD)
    with that have "q < length (heap st)"
      by (rule wf_suite_entry)
    with Some \<open>map_of (suites st) (Info_Suite info) = Some tm\<close> show ?thesis
      by (simp add: output_record_def)
  qed
qed

lemma output_record_alloc:
  assumes "Info_Test info \<notin> fst ` set (case map_of (suites st) (Info_Suite info) of
                                          None \<Rightarrow> [] | Some tm \<Rightarrow> tm)"
  shows "heap (output_record info st) =
         heap st @ [(new_Test (Info_Test info))\<lparr>Output := [Info_Msg info]\<rparr>]"
proof (cases "map_of (suites st) (Info_Suite info)")
  case None
  then show ?thesis by (simp add: output_record_def)
next
  case (Some tm)
  with assms have "map_of tm (Info_Test info) = None"
    by (simp add: map_of_eq_None_iff)
  with Some show ?thesis by (simp add: output_record_def)
qed

section \<open>The concrete runs\<close>

lemmas regex_defs = FindStringSubmatch_def regexStatus_def regexResult_def cat_def cls_any_def
  cls_d_def cls_s_def cls_w_def cls_not_space_def

lemmas json_defs = go_Unmarshal_def skip_space_def isSpace_def isDigit_def scan_number_def
  scan_frac_def scan_exp_def store_member_def fold_char_def in_range_def rune_len_def getu4_def
  hexval_def

lemmas line_defs = is_result_line_def is_status_line_def is_output_record_def status_name_def
  path_Base_def

lemmas step_defs = parse_line_def flush_def flush_suite_def flush_tests_def status_line_def
  output_record_def other_line_def init_def go_extern_def in_order_def path_Base_def new_Test_def
  parseSeconds_def go_ParseDuration_def digits_value_def PASS_def FAIL_def SKIP_def
  Millisecond_def Let_def

lemma sample_record_lines:
  "FindStringSubmatch regexResult sample_record = []"
  "FindStringSubmatch regexStatus sample_record = []"
  "go_Unmarshal sample_record =
     Some \<lparr>Info_Suite = ''pkgA'', Info_Test = ''TestFoo'', Info_Msg = ''hello''\<rparr>"
  by (simp_all add: sample_record_def regex_defs json_defs)

lemma sample_open_eq:
  "sample_open =
     \<lparr>heap = [\<lparr>Test_Name = ''TestFoo'', Test_Duration = 0, Test_Result = 0,
               Output = [''hello''], Failure = [], SkipMsg = [], SubtestIndent = [],
               Test_Time = 0\<rparr>],
      report = \<lparr>Packages = []\<rparr>, suites = [(''pkgA'', [(''TestFoo'', 0)])], cur = None\<rparr>"
  by (simp add: sample_open_def parse_line_def sample_record_lines output_record_def init_def
      go_extern_def new_Test_def)

lemma fail_line:
  "FindStringSubmatch regexResult ''--- FAIL: TestFoo (0.02s)'' = []"
  "FindStringSubmatch regexStatus ''--- FAIL: TestFoo (0.02s)'' =
     [''--- FAIL: TestFoo (0.02s)'', ''FAIL'', ''TestFoo'', ''0.02'']"
  by (simp_all add: regex_defs)

lemma sample_failed_eq:
  "sample_failed =
     \<lparr>heap = [\<lparr>Test_Name = ''TestFoo'', Test_Duration = 20000000, Test_Result = 1,
               Output = [''hello''], Failure = [], SkipMsg = [], SubtestIndent = [],
               Test_Time = 0\<rparr>],
      report = \<lparr>Packages = []\<rparr>, suites = [(''pkgA'', [(''TestFoo'', 0)])], cur = Some 0\<rparr>"
proof -
  have "sample_failed = parse_line (go_extern in_order) 1 ''--- FAIL: TestFoo (0.02s)'' sample_open"
    by (simp add: sample_failed_def sample_open_def)
  then show ?thesis
    by (simp add: sample_open_eq parse_line_def fail_line step_defs isDigit_def)
qed

lemma wf_sample_open: "wf sample_open"
  unfolding sample_open_def by (rule wf_run) (rule wf_init)

lemma wf_sample_failed: "wf sample_failed"
  unfolding sample_failed_def by (rule wf_run) (rule wf_init)

lemma result_line_ok: "is_result_line ''FAIL pkgA 0.020s''"
  by (simp add: is_result_line_def regex_defs)

lemma sample_flushed_eq:
  "parse_line (go_extern in_order) 2 ''FAIL pkgA 0.020s'' sample_failed =
     \<lparr>heap = [\<lparr>Test_Name = ''TestFoo'', Test_Duration = 20000000, Test_Result = 1,
               Output = [''hello''], Failure = [], SkipMsg = [], SubtestIndent = [],
               Test_Time = 0\<rparr>],
      report = \<lparr>Packages = [\<lparr>Package_Name = ''pkgA'', Package_Duration = 20000000, Tests = [0],
                Benchmarks = [], CoveragePct = [], Package_Time = 20\<rparr>]\<rparr>,
      suites = [], cur = Some 0\<rparr>"
  using result_line_ok
  by (simp add: parse_line_result sample_failed_eq flush_def flush_suite_def flush_tests_def
      in_order_def go_extern_def Millisecond_def)

lemma assertion_line:
  "FindStringSubmatch regexResult ''assertion failed at line 5'' = []"
  "FindStringSubmatch regexStatus ''assertion failed at line 5'' = []"
  "go_Unmarshal ''assertion failed at line 5'' = None"
  by (simp_all add: regex_defs json_defs)

lemma cached_line:
  "FindStringSubmatch regexResult ''ok pkgA (cached)'' = [''ok pkgA (cached)'', ''ok'', ''pkgA'', [], [], []]"
  by (simp add: regex_defs)

lemma sample_record_ok: "is_output_record (go_extern in_order) sample_record"
  by (simp add: is_output_record_def is_result_line_def sample_record_lines go_extern_def)

lemma coverage_line_ok: "is_result_line ''ok pkgA 0.5s coverage: 87.5% of statements''"
  by (simp add: is_result_line_def regex_defs)

lemma sample_record_B_lines:
  "FindStringSubmatch regexResult sample_record_B = []"
  "FindStringSubmatch regexStatus sample_record_B = []"
  "go_Unmarshal sample_record_B =
     Some \<lparr>Info_Suite = ''pkgB'', Info_Test = ''TestBar'', Info_Msg = ''world''\<rparr>"
  by (simp_all add: sample_record_B_def regex_defs json_defs)

lemma sample_closed_eq:
  "run (go_extern in_order) 0 [sample_record, ''ok pkgA 0.1s''] init =
     \<lparr>heap = [\<lparr>Test_Name = ''TestFoo'', Test_Duration = 0, Test_Result = 0,
               Output = [''hello''], Failure = [], SkipMsg = [], SubtestIndent = [],
               Test_Time = 0\<rparr>],
      report = \<lparr>Packages = [\<lparr>Package_Name = ''pkgA'', Package_Duration = 0, Tests = [0],
                Benchmarks = [], CoveragePct = [], Package_Time = 0\<rparr>]\<rparr>,
      suites = [], cur = None\<rparr>"
proof -
  have r: "is_result_line ''ok pkgA 0.1s''"
    by (simp add: is_result_line_def regex_defs)
  have "run (go_extern in_order) 0 [sample_record, ''ok pkgA 0.1s''] init =
      parse_line (go_extern in_order) 1 ''ok pkgA 0.1s'' sample_open"
    by (simp add: sample_open_def)
  also have "\<dots> = flush (go_extern in_order) 1 sample_open"
    using r by (rule parse_line_result)
  finally show ?thesis
    by (simp add: sample_open_eq flush_def flush_suite_def flush_tests_def in_order_def
        go_extern_def Millisecond_def)
qed

lemma sample_orphan_eq:
  "run (go_extern in_order) 0 ([sample_record, ''ok pkgA 0.1s''] @ [sample_record_B]) init =
     \<lparr>heap = [\<lparr>Test_Name = ''TestFoo'', Test_Duration = 0, Test_Result = 0,
               Output = [''hello''], Failure = [], SkipMsg = [], SubtestIndent = [],
               Test_Time = 0\<rparr>,
              \<lparr>Test_Name = ''TestBar'', Test_Duration = 0, Test_Result = 0,
               Output = [''world''], Failure = [], SkipMsg = [], SubtestIndent = [],
               Test_Time = 0\<rparr>],
      report = \<lparr>Packages = [\<lparr>Package_Name = ''pkgA'', Package_Duration = 0, Tests = [0],
                Benchmarks = [], CoveragePct = [], Package_Time = 0\<rparr>]\<rparr>,
      suites = [(''pkgB'', [(''TestBar'', 1)])], cur = None\<rparr>"
  unfolding run_append sample_closed_eq
  by (simp add: parse_line_def sample_record_B_lines output_record_def go_extern_def new_Test_def)

lemma subtest_line:
  "FindStringSubmatch regexResult ''--- FAIL: TestSuite/TestFoo (0.02s)'' = []"
  "FindStringSubmatch regexStatus ''--- FAIL: TestSuite/TestFoo (0.02s)'' =
     [''--- FAIL: TestSuite/TestFoo (0.02s)'', ''FAIL'', ''TestSuite/TestFoo'', ''0.02'']"
  by (simp_all add: regex_defs)

section \<open>Duration of a flushed package\<close>

lemma sum_list_word_of_int:
  "sum_list (map f xs) = (word_of_int (sum_list (map (\<lambda>x. sint (f x)) xs)) :: 64 word)"
  by (induction xs) simp_all

lemma sint_sum_list:
  fixes f :: "'a \<Rightarrow> 64 word"
  assumes "- (2 ^ 63) \<le> sum_list (map (\<lambda>x. sint (f x)) xs)"
    and "sum_list (map (\<lambda>x. sint (f x)) xs) < 2 ^ 63"
  shows "sint (sum_list (map f xs)) = sum_list (map (\<lambda>x. sint (f x)) xs)"
proof -
  have "sint (sum_list (map f xs)) = sint (word_of_int (sum_list (map (\<lambda>x. sint (f x)) xs)) :: 64 word)"
    using sum_list_word_of_int [of f xs] by simp
  also have "\<dots> = signed_take_bit 63 (sum_list (map (\<lambda>x. sint (f x)) xs))"
    by (simp add: sint_sbintrunc')
  also have "\<dots> = sum_list (map (\<lambda>x. sint (f x)) xs)"
    using assms by (intro signed_take_bit_int_eq_self) simp_all
  finally show ?thesis .
qed

text \<open>
  Claim C1. When a package-result line is parsed, the report gains one Package for every
  package name in the accumulation buffer, holding the tests of that name's test map. Its
  Duration is the sum of the Duration values that its Tests have at that moment, and its
  Time is that duration in whole milliseconds. The sum is a \<^verbatim>\<open>time.Duration\<close>, an int64 that wraps
  around; whenever the sum of the durations as integers fits into an int64, the Duration is
  that integer.
\<close>

theorem flush_package_duration:
  assumes "is_result_line line"
  shows "\<exists>new. Packages (report (parse_line E n line st)) = Packages (report st) @ new
      \<and> mset (map (\<lambda>p. (Package_Name p, mset (Tests p))) new) =
          mset (map (\<lambda>entry. (fst entry, mset (map snd (snd entry)))) (suites st))
      \<and> (\<forall>p \<in> set new.
            Package_Duration p = sum_list (map (\<lambda>t. Test_Duration (heap st ! t)) (Tests p))
            \<and> Package_Time p = sint (Package_Duration p) sdiv 1000000
            \<and> (- (2 ^ 63) \<le> sum_list (map (\<lambda>t. sint (Test_Duration (heap st ! t))) (Tests p))
                \<and> sum_list (map (\<lambda>t. sint (Test_Duration (heap st ! t))) (Tests p)) < 2 ^ 63
               \<longrightarrow> sint (Package_Duration p) =
                     sum_list (map (\<lambda>t. sint (Test_Duration (heap st ! t))) (Tests p))))"
proof -
  have 1: "Packages (report (parse_line E n line st)) = Packages (report st) @ flushed E n st"
    using assms by (simp add: parse_line_result flush_eq)
  have 3: "Package_Duration p = sum_list (map (\<lambda>t. Test_Duration (heap st ! t)) (Tests p))
      \<and> Package_Time p = sint (Package_Duration p) sdiv 1000000
      \<and> (- (2 ^ 63) \<le> sum_list (map (\<lambda>t. sint (Test_Duration (heap st ! t))) (Tests p))
          \<and> sum_list (map (\<lambda>t. sint (Test_Duration (heap st ! t))) (Tests p)) < 2 ^ 63
         \<longrightarrow> sint (Package_Duration p) =
               sum_list (map (\<lambda>t. sint (Test_Duration (heap st ! t))) (Tests p)))"
    if p: "p \<in> set (flushed E n st)" for p
  proof (intro conjI impI)
    show d: "Package_Duration p = sum_list (map (\<lambda>t. Test_Duration (heap st ! t)) (Tests p))"
      by (rule flushed_duration(1) [OF p])
    show "Package_Time p = sint (Package_Duration p) sdiv 1000000"
      by (rule flushed_duration(2) [OF p])
    assume "- (2 ^ 63) \<le> sum_list (map (\<lambda>t. sint (Test_Duration (heap st ! t))) (Tests p))
        \<and> sum_list (map (\<lambda>t. sint (Test_Duration (heap st ! t))) (Tests p)) < 2 ^ 63"
    then have "sint (sum_list (map (\<lambda>t. Test_Duration (heap st ! t)) (Tests p))) =
        sum_list (map (\<lambda>t. sint (Test_Duration (heap st ! t))) (Tests p))"
      by (intro sint_sum_list) blast+
    then show "sint (Package_Duration p) =
        sum_list (map (\<lambda>t. sint (Test_Duration (heap st ! t))) (Tests p))"
      by (subst d)
  qed
  from 1 flushed_names 3 show ?thesis
    by blast
qed

theorem flush_package_duration_witness:
  "is_result_line ''FAIL pkgA 0.020s''
   \<and> (\<exists>new. Packages (report (parse_line (go_extern in_order) 2 ''FAIL pkgA 0.020s'' sample_failed)) =
          Packages (report sample_failed) @ new
      \<and> mset (map (\<lambda>p. (Package_Name p, mset (Tests p))) new) =
          mset (map (\<lambda>entry. (fst entry, mset (map snd (snd entry)))) (suites sample_failed))
      \<and> (\<forall>p \<in> set new.
            Package_Duration p = sum_list (map (\<lambda>t. Test_Duration (heap sample_failed ! t)) (Tests p))
            \<and> Package_Time p = sint (Package_Duration p) sdiv 1000000
            \<and> (- (2 ^ 63) \<le> sum_list (map (\<lambda>t. sint (Test_Duration (heap sample_failed ! t))) (Tests p))
                \<and> sum_list (map (\<lambda>t. sint (Test_Duration (heap sample_failed ! t))) (Tests p)) < 2 ^ 63
               \<longrightarrow> sint (Package_Duration p) =
                     sum_list (map (\<lambda>t. sint (Test_Duration (heap sample_failed ! t))) (Tests p)))))"
  by (rule conjI [OF result_line_ok flush_package_duration [OF result_line_ok]])

section \<open>End of the stream\<close>

text \<open>
  Claim C2. On \<^verbatim>\<open>io.EOF\<close> \<^verbatim>\<open>Parse\<close> returns the report of the state that the lines of the stream
  lead to from the initial state, and nothing more: the tests that are in the accumulation
  buffer of that state are not among the tests of the report's packages, and the lines after
  the last package-result line leave the report as it was, so the tests they create are in
  no package. In particular, when no line of the stream matches the package-result pattern,
  whatever else the lines are, the report has no packages.
\<close>

theorem unclosed_tests_discarded:
  "Parse_loop E 0 ls EOF init = Inr (run E 0 ls init)
   \<and> Parse E (ls, EOF) pkgName = Inr (report (run E 0 ls init), heap (run E 0 ls init))
   \<and> suite_ptrs (suites (run E 0 ls init)) \<inter> report_ptrs (report (run E 0 ls init)) = {}
   \<and> ((\<forall>l \<in> set post. \<not> is_result_line l) \<longrightarrow>
         report (run E 0 (pre @ post) init) = report (run E 0 pre init)
         \<and> (\<exists>h. Parse E (pre @ post, EOF) pkgName = Inr (report (run E 0 pre init), h)))
   \<and> ((\<forall>l \<in> set ls. \<not> is_result_line l) \<longrightarrow> Packages (report (run E 0 ls init)) = [])"
proof (intro conjI impI)
  show "Parse_loop E 0 ls EOF init = Inr (run E 0 ls init)"
    by (simp add: Parse_loop_run)
  show "Parse E (ls, EOF) pkgName = Inr (report (run E 0 ls init), heap (run E 0 ls init))"
    by (simp add: Parse_def Parse_loop_run)
  have "wf (run E 0 ls init)"
    by (rule wf_run) (rule wf_init)
  then show "suite_ptrs (suites (run E 0 ls init)) \<inter> report_ptrs (report (run E 0 ls init)) = {}"
    unfolding wf_def by blast
next
  assume post: "\<forall>l \<in> set post. \<not> is_result_line l"
  then show r: "report (run E 0 (pre @ post) init) = report (run E 0 pre init)"
    by (simp add: run_append report_run)
  have "Parse E (pre @ post, EOF) pkgName =
      Inr (report (run E 0 pre init), heap (run E 0 (pre @ post) init))"
    by (simp add: Parse_def Parse_loop_run r)
  then show "\<exists>h. Parse E (pre @ post, EOF) pkgName = Inr (report (run E 0 pre init), h)"
    by blast
next
  assume "\<forall>l \<in> set ls. \<not> is_result_line l"
  then show "Packages (report (run E 0 ls init)) = []"
    by (simp add: report_run init_def)
qed

theorem unclosed_tests_discarded_witness:
  "\<not> is_result_line sample_record_B
   \<and> suites (run (go_extern in_order) 0 ([sample_record, ''ok pkgA 0.1s''] @ [sample_record_B]) init) =
       [(''pkgB'', [(''TestBar'', 1)])]
   \<and> Parse (go_extern in_order) ([sample_record, ''ok pkgA 0.1s''] @ [sample_record_B], EOF) ''pkgA'' =
       Inr (\<lparr>Packages = [\<lparr>Package_Name = ''pkgA'', Package_Duration = 0, Tests = [0],
                Benchmarks = [], CoveragePct = [], Package_Time = 0\<rparr>]\<rparr>,
            [\<lparr>Test_Name = ''TestFoo'', Test_Duration = 0, Test_Result = 0,
              Output = [''hello''], Failure = [], SkipMsg = [], SubtestIndent = [],
              Test_Time = 0\<rparr>,
             \<lparr>Test_Name = ''TestBar'', Test_Duration = 0, Test_Result = 0,
              Output = [''world''], Failure = [], SkipMsg = [], SubtestIndent = [],
              Test_Time = 0\<rparr>])
   \<and> report (run (go_extern in_order) 0 ([sample_record, ''ok pkgA 0.1s''] @ [sample_record_B]) init) =
       report (run (go_extern in_order) 0 [sample_record, ''ok pkgA 0.1s''] init)
   \<and> \<not> is_result_line sample_record \<and> \<not> is_result_line ''--- FAIL: TestFoo (0.02s)''
   \<and> Parse (go_extern in_order) ([sample_record, ''--- FAIL: TestFoo (0.02s)''], EOF) ''pkgA'' =
       Inr (\<lparr>Packages = []\<rparr>, heap sample_failed)"
proof -
  let ?E = "go_extern in_order"
  let ?pre = "[sample_record, ''ok pkgA 0.1s'']"
  let ?ls = "[sample_record, ''--- FAIL: TestFoo (0.02s)'']"
  have nb: "\<not> is_result_line sample_record_B"
    by (simp add: is_result_line_def sample_record_B_lines)
  then have post: "\<forall>l \<in> set [sample_record_B]. \<not> is_result_line l"
    by simp
  have n1: "\<not> is_result_line sample_record" and n2: "\<not> is_result_line ''--- FAIL: TestFoo (0.02s)''"
    by (simp_all add: is_result_line_def sample_record_lines fail_line)
  then have ls: "\<forall>l \<in> set ?ls. \<not> is_result_line l"
    by simp
  note a = unclosed_tests_discarded [of ?E "?pre @ [sample_record_B]" "''pkgA''" "[sample_record_B]" ?pre]
  note b = unclosed_tests_discarded [of ?E ?ls "''pkgA''" "[sample_record_B]" ?pre]
  have s: "suites (run ?E 0 (?pre @ [sample_record_B]) init) = [(''pkgB'', [(''TestBar'', 1)])]"
    by (simp only: sample_orphan_eq state.simps)
  have P: "Parse ?E (?pre @ [sample_record_B], EOF) ''pkgA'' =
       Inr (\<lparr>Packages = [\<lparr>Package_Name = ''pkgA'', Package_Duration = 0, Tests = [0],
                Benchmarks = [], CoveragePct = [], Package_Time = 0\<rparr>]\<rparr>,
            [\<lparr>Test_Name = ''TestFoo'', Test_Duration = 0, Test_Result = 0,
              Output = [''hello''], Failure = [], SkipMsg = [], SubtestIndent = [],
              Test_Time = 0\<rparr>,
             \<lparr>Test_Name = ''TestBar'', Test_Duration = 0, Test_Result = 0,
              Output = [''world''], Failure = [], SkipMsg = [], SubtestIndent = [],
              Test_Time = 0\<rparr>])"
    using a by (simp only: sample_orphan_eq state.simps)
  have r: "report (run ?E 0 (?pre @ [sample_record_B]) init) = report (run ?E 0 ?pre init)"
    using a post by blast
  have "Packages (report (run ?E 0 ?ls init)) = []"
    using b ls by blast
  then have "report (run ?E 0 ?ls init) = \<lparr>Packages = []\<rparr>"
    by (cases "report (run ?E 0 ?ls init)") simp
  moreover have "Parse ?E (?ls, EOF) ''pkgA'' = Inr (report (run ?E 0 ?ls init), heap (run ?E 0 ?ls init))"
    using b by blast
  ultimately have Q: "Parse ?E (?ls, EOF) ''pkgA'' = Inr (\<lparr>Packages = []\<rparr>, heap sample_failed)"
    by (simp only: sample_failed_def)
  show ?thesis
    by (rule conjI [OF nb conjI [OF s conjI [OF P conjI [OF r conjI [OF n1 conjI [OF n2 Q]]]]]])
qed

section \<open>Status lines\<close>

lemma path_Base_last_segment:
  assumes "path \<noteq> []"
  shows "(set path \<subseteq> {CHR ''/''} \<and> path_Base path = ''/'')
    \<or> (path_Base path \<noteq> [] \<and> CHR ''/'' \<notin> set (path_Base path)
       \<and> (\<exists>pre suf. path = pre @ path_Base path @ suf \<and> set suf \<subseteq> {CHR ''/''}
              \<and> (pre = [] \<or> last pre = CHR ''/'')))"
proof -
  define suf where "suf = rev (takeWhile (\<lambda>c. c = CHR ''/'') (rev path))"
  define stripped where "stripped = rev (dropWhile (\<lambda>c. c = CHR ''/'') (rev path))"
  define seg where "seg = rev (takeWhile (\<lambda>c. c \<noteq> CHR ''/'') (rev stripped))"
  define pre where "pre = rev (dropWhile (\<lambda>c. c \<noteq> CHR ''/'') (rev stripped))"
  have "rev path = rev suf @ rev stripped"
    by (simp add: suf_def stripped_def)
  then have path: "path = stripped @ suf"
    by (metis rev_append rev_rev_ident)
  have "rev stripped = rev seg @ rev pre"
    by (simp add: seg_def pre_def)
  then have stripped: "stripped = pre @ seg"
    by (metis rev_append rev_rev_ident)
  have suf: "set suf \<subseteq> {CHR ''/''}"
    by (auto simp: suf_def dest: set_takeWhileD)
  have seg: "CHR ''/'' \<notin> set seg"
    by (auto simp: seg_def dest: set_takeWhileD)
  have base: "path_Base path = (if seg = [] then ''/'' else seg)"
    using assms by (simp add: path_Base_def Let_def seg_def stripped_def)
  show ?thesis
  proof (cases "seg = []")
    case True
    have "stripped = []"
    proof (rule ccontr)
      assume ne: "stripped \<noteq> []"
      then have "dropWhile (\<lambda>c. c = CHR ''/'') (rev path) \<noteq> []"
        by (simp add: stripped_def)
      then have "hd (dropWhile (\<lambda>c. c = CHR ''/'') (rev path)) \<noteq> CHR ''/''"
        by (rule hd_dropWhile)
      then have h: "hd (rev stripped) \<noteq> CHR ''/''"
        by (simp add: stripped_def)
      from ne obtain x xs where x: "rev stripped = x # xs"
        by (cases "rev stripped") auto
      with h have "takeWhile (\<lambda>c. c \<noteq> CHR ''/'') (rev stripped) \<noteq> []"
        by simp
      with True show False
        by (simp add: seg_def)
    qed
    with path suf True base show ?thesis
      by simp
  next
    case False
    have "pre = [] \<or> last pre = CHR ''/''"
    proof (cases "pre = []")
      case ne: False
      then have d: "dropWhile (\<lambda>c. c \<noteq> CHR ''/'') (rev stripped) \<noteq> []"
        by (simp add: pre_def)
      then have "\<not> hd (dropWhile (\<lambda>c. c \<noteq> CHR ''/'') (rev stripped)) \<noteq> CHR ''/''"
        by (rule hd_dropWhile)
      moreover have "last pre = hd (dropWhile (\<lambda>c. c \<noteq> CHR ''/'') (rev stripped))"
        unfolding pre_def using d by (simp add: last_rev)
      ultimately show ?thesis by simp
    qed simp
    moreover have "path = pre @ seg @ suf"
      by (simp add: path stripped)
    ultimately have "\<exists>pre suf. path = pre @ seg @ suf \<and> set suf \<subseteq> {CHR ''/''}
        \<and> (pre = [] \<or> last pre = CHR ''/'')"
      using suf by blast
    with False seg base show ?thesis
      by simp
  qed
qed

text \<open>
  Claim C3. On a status line the pattern yields the keyword, one of PASS, FAIL and SKIP, a
  non-empty name and the seconds, digits with a point between them. The name looked up is
  the last path segment of the captured name: the part after its last slash, trailing
  slashes apart, and \<^verbatim>\<open>/\<close> for a name of slashes only. If no test map of the buffer has a
  test of that name, the only effect is that the current-test handle becomes nil: no Test is
  created. Otherwise a Test stored under that name in one of the test maps gets the result of
  the keyword and, as its duration, what \<^verbatim>\<open>time.ParseDuration\<close> returns for the captured seconds
  followed by \<^verbatim>\<open>s\<close>, and becomes the current test; nothing else changes.
\<close>

theorem status_line_effect:
  assumes "wf st" and "is_status_line line"
  shows "\<exists>whole kw name d1 d2.
      FindStringSubmatch regexStatus line = [whole, kw, name, d1 @ ''.'' @ d2]
    \<and> kw \<in> {''PASS'', ''FAIL'', ''SKIP''} \<and> name \<noteq> [] \<and> d1 \<noteq> [] \<and> d2 \<noteq> []
    \<and> set (d1 @ d2) \<subseteq> set ''0123456789''
    \<and> ((set name \<subseteq> {CHR ''/''} \<and> status_name line = ''/'')
       \<or> (status_name line \<noteq> [] \<and> CHR ''/'' \<notin> set (status_name line)
          \<and> (\<exists>pre suf. name = pre @ status_name line @ suf \<and> set suf \<subseteq> {CHR ''/''}
                 \<and> (pre = [] \<or> last pre = CHR ''/''))))
    \<and> (if \<forall>entry \<in> set (suites st). status_name line \<notin> fst ` set (snd entry)
        then parse_line E n line st = st\<lparr>cur := None\<rparr>
        else \<exists>suite tm p.
               (suite, tm) \<in> set (suites st) \<and> map_of tm (status_name line) = Some p
               \<and> p < length (heap st) \<and> Test_Name (heap st ! p) = status_name line
               \<and> parse_line E n line st =
                   st\<lparr>heap := (heap st)[p := (heap st ! p)
                         \<lparr>Test_Result :=
                            (if kw = ''PASS'' then PASS else if kw = ''FAIL'' then FAIL else SKIP),
                          Test_Duration := fst (ParseDuration E (d1 @ ''.'' @ d2 @ ''s''))\<rparr>],
                      cur := Some p\<rparr>)"
proof -
  let ?m = "FindStringSubmatch regexStatus line"
  let ?found = "search_suites (range_choice E n) (status_name line) 0
                (range_order (range_choice E n 0) (suites st))"
  from assms(2) have "length ?m = 4"
    by (simp add: is_status_line_def)
  from status_submatches [OF this] obtain whole kw name d1 d2
    where m: "?m = [whole, kw, name, d1 @ ''.'' @ d2]"
      and kw: "kw \<in> {''PASS'', ''FAIL'', ''SKIP''}"
      and name: "name \<noteq> []" and d: "d1 \<noteq> []" "d2 \<noteq> []" "set (d1 @ d2) \<subseteq> set ''0123456789''"
    by blast
  have sn: "status_name line = path_Base name"
    by (simp add: status_name_def m)
  have seg: "(set name \<subseteq> {CHR ''/''} \<and> status_name line = ''/'')
       \<or> (status_name line \<noteq> [] \<and> CHR ''/'' \<notin> set (status_name line)
          \<and> (\<exists>pre suf. name = pre @ status_name line @ suf \<and> set suf \<subseteq> {CHR ''/''}
                 \<and> (pre = [] \<or> last pre = CHR ''/'')))"
    unfolding sn by (rule path_Base_last_segment [OF name])
  have secs: "parseSeconds E (d1 @ ''.'' @ d2) = fst (ParseDuration E (d1 @ ''.'' @ d2 @ ''s''))"
    by (simp add: parseSeconds_def)
  have res: "(if kw = ''PASS'' then PASS else if kw = ''SKIP'' then SKIP else FAIL) =
        (if kw = ''PASS'' then PASS else if kw = ''FAIL'' then FAIL else SKIP)"
    using kw by auto
  have step: "parse_line E n line st = status_line E n [whole, kw, name, d1 @ ''.'' @ d2] st"
    using assms(2) by (simp add: parse_line_status m)
  have branch: "if \<forall>entry \<in> set (suites st). status_name line \<notin> fst ` set (snd entry)
        then parse_line E n line st = st\<lparr>cur := None\<rparr>
        else \<exists>suite tm p.
               (suite, tm) \<in> set (suites st) \<and> map_of tm (status_name line) = Some p
               \<and> p < length (heap st) \<and> Test_Name (heap st ! p) = status_name line
               \<and> parse_line E n line st =
                   st\<lparr>heap := (heap st)[p := (heap st ! p)
                         \<lparr>Test_Result :=
                            (if kw = ''PASS'' then PASS else if kw = ''FAIL'' then FAIL else SKIP),
                          Test_Duration := fst (ParseDuration E (d1 @ ''.'' @ d2 @ ''s''))\<rparr>],
                      cur := Some p\<rparr>"
  proof (cases ?found)
    case None
    then have none: "\<forall>entry \<in> set (suites st). status_name line \<notin> fst ` set (snd entry)"
      by (simp add: search_suites_None set_range_order)
    have "parse_line E n line st = st\<lparr>cur := None\<rparr>"
      unfolding step using None by (simp add: status_line_def sn)
    then show ?thesis
      by (simp only: if_P [OF none])
  next
    case (Some p)
    from search_suites_Some [OF Some] obtain suite tm
      where e: "(suite, tm) \<in> set (suites st)" "(status_name line, p) \<in> set tm"
      by (auto simp: set_range_order)
    then have some: "\<not> (\<forall>entry \<in> set (suites st). status_name line \<notin> fst ` set (snd entry))"
      by force
    have "distinct (map fst tm)"
      using assms(1) e(1) unfolding wf_def by fastforce
    with e(2) have mp: "map_of tm (status_name line) = Some p"
      by simp
    have p: "p < length (heap st)" "Test_Name (heap st ! p) = status_name line"
      using wf_suite_entry [OF assms(1) e] by simp_all
    have "parse_line E n line st =
        st\<lparr>heap := (heap st)[p := (heap st ! p)
              \<lparr>Test_Result := (if kw = ''PASS'' then PASS
                                else if kw = ''FAIL'' then FAIL else SKIP),
               Test_Duration := fst (ParseDuration E (d1 @ ''.'' @ d2 @ ''s''))\<rparr>],
           cur := Some p\<rparr>"
      unfolding step res [symmetric] secs [symmetric] using Some
      by (simp add: status_line_def sn)
    with e(1) mp p have "\<exists>suite tm p.
               (suite, tm) \<in> set (suites st) \<and> map_of tm (status_name line) = Some p
               \<and> p < length (heap st) \<and> Test_Name (heap st ! p) = status_name line
               \<and> parse_line E n line st =
                   st\<lparr>heap := (heap st)[p := (heap st ! p)
                         \<lparr>Test_Result :=
                            (if kw = ''PASS'' then PASS else if kw = ''FAIL'' then FAIL else SKIP),
                          Test_Duration := fst (ParseDuration E (d1 @ ''.'' @ d2 @ ''s''))\<rparr>],
                      cur := Some p\<rparr>"
      by blast
    then show ?thesis
      by (simp only: if_not_P [OF some])
  qed
  from m kw name d seg branch show ?thesis
    by blast
qed

theorem status_line_effect_witness:
  "wf sample_open \<and> is_status_line ''--- FAIL: TestSuite/TestFoo (0.02s)''
   \<and> FindStringSubmatch regexStatus ''--- FAIL: TestSuite/TestFoo (0.02s)'' =
       [''--- FAIL: TestSuite/TestFoo (0.02s)'', ''FAIL'', ''TestSuite/TestFoo'', ''0.02'']
   \<and> status_name ''--- FAIL: TestSuite/TestFoo (0.02s)'' = ''TestFoo''
   \<and> fst (ParseDuration (go_extern in_order) ''0.02s'') = 20000000
   \<and> parse_line (go_extern in_order) 1 ''--- FAIL: TestSuite/TestFoo (0.02s)'' sample_open =
       \<lparr>heap = [\<lparr>Test_Name = ''TestFoo'', Test_Duration = 20000000, Test_Result = FAIL,
                 Output = [''hello''], Failure = [], SkipMsg = [], SubtestIndent = [],
                 Test_Time = 0\<rparr>],
        report = \<lparr>Packages = []\<rparr>, suites = [(''pkgA'', [(''TestFoo'', 0)])], cur = Some 0\<rparr>"
proof -
  let ?L = "''--- FAIL: TestSuite/TestFoo (0.02s)''"
  let ?E = "go_extern in_order"
  have st: "is_status_line ?L"
    by (simp add: is_status_line_def is_result_line_def subtest_line)
  have sn: "status_name ?L = ''TestFoo''"
    by (simp add: status_name_def subtest_line path_Base_def)
  have dur: "fst (ParseDuration ?E ''0.02s'') = 20000000"
    by (simp add: go_extern_def go_ParseDuration_def digits_value_def isDigit_def)
  from status_line_effect [OF wf_sample_open st, of ?E 1]
  obtain whole kw name d1 d2 where
      m: "FindStringSubmatch regexStatus ?L = [whole, kw, name, d1 @ ''.'' @ d2]"
    and branch: "if \<forall>entry \<in> set (suites sample_open). status_name ?L \<notin> fst ` set (snd entry)
        then parse_line ?E 1 ?L sample_open = sample_open\<lparr>cur := None\<rparr>
        else \<exists>suite tm p.
               (suite, tm) \<in> set (suites sample_open) \<and> map_of tm (status_name ?L) = Some p
               \<and> p < length (heap sample_open) \<and> Test_Name (heap sample_open ! p) = status_name ?L
               \<and> parse_line ?E 1 ?L sample_open =
                   sample_open\<lparr>heap := (heap sample_open)[p := (heap sample_open ! p)
                         \<lparr>Test_Result :=
                            (if kw = ''PASS'' then PASS else if kw = ''FAIL'' then FAIL else SKIP),
                          Test_Duration := fst (ParseDuration ?E (d1 @ ''.'' @ d2 @ ''s''))\<rparr>],
                      cur := Some p\<rparr>"
    by blast
  from m have kw: "kw = ''FAIL''" and secs: "d1 @ ''.'' @ d2 = ''0.02''"
    by (simp_all only: subtest_line list.inject)
  have "(d1 @ ''.'' @ d2) @ ''s'' = ''0.02'' @ ''s''"
    by (simp only: secs)
  then have secs': "d1 @ ''.'' @ d2 @ ''s'' = ''0.02s''"
    by simp
  have present: "\<not> (\<forall>entry \<in> set (suites sample_open). status_name ?L \<notin> fst ` set (snd entry))"
    by (simp add: sn sample_open_eq)
  from branch obtain suite tm p where
      e: "(suite, tm) \<in> set (suites sample_open)" "map_of tm (status_name ?L) = Some p"
    and step: "parse_line ?E 1 ?L sample_open =
                   sample_open\<lparr>heap := (heap sample_open)[p := (heap sample_open ! p)
                         \<lparr>Test_Result :=
                            (if kw = ''PASS'' then PASS else if kw = ''FAIL'' then FAIL else SKIP),
                          Test_Duration := fst (ParseDuration ?E (d1 @ ''.'' @ d2 @ ''s''))\<rparr>],
                      cur := Some p\<rparr>"
    unfolding if_not_P [OF present] by blast
  from e have "p = 0"
    by (auto simp: sn sample_open_eq)
  with step [unfolded secs' kw] have fin: "parse_line ?E 1 ?L sample_open =
       \<lparr>heap = [\<lparr>Test_Name = ''TestFoo'', Test_Duration = 20000000, Test_Result = FAIL,
                 Output = [''hello''], Failure = [], SkipMsg = [], SubtestIndent = [],
                 Test_Time = 0\<rparr>],
        report = \<lparr>Packages = []\<rparr>, suites = [(''pkgA'', [(''TestFoo'', 0)])], cur = Some 0\<rparr>"
    by (simp add: dur sample_open_eq)
  show ?thesis
    by (rule conjI [OF wf_sample_open conjI [OF st conjI [OF subtest_line(2) conjI [OF sn
          conjI [OF dur fin]]]]])
qed

section \<open>Lines that match no other rule\<close>

text \<open>
  Claim C4. A line that is no package-result line, no status line and does not decode as an
  output record is appended to the failure details of the current test when that test's
  result is FAIL, to its skip messages when the result is SKIP, and changes nothing in the
  state when there is no current test or its result is PASS.
\<close>

theorem other_line_effect:
  assumes "wf st" and "\<not> is_result_line line" and "\<not> is_status_line line"
    and "Unmarshal E line = None"
  shows "(\<forall>c. cur st = Some c \<and> Test_Result (heap st ! c) = FAIL \<longrightarrow>
            parse_line E n line st =
              st\<lparr>heap := (heap st)[c := (heap st ! c)\<lparr>Failure := Failure (heap st ! c) @ [line]\<rparr>]\<rparr>
            \<and> Failure (heap (parse_line E n line st) ! c) = Failure (heap st ! c) @ [line])
    \<and> (\<forall>c. cur st = Some c \<and> Test_Result (heap st ! c) = SKIP \<longrightarrow>
            parse_line E n line st =
              st\<lparr>heap := (heap st)[c := (heap st ! c)\<lparr>SkipMsg := SkipMsg (heap st ! c) @ [line]\<rparr>]\<rparr>
            \<and> SkipMsg (heap (parse_line E n line st) ! c) = SkipMsg (heap st ! c) @ [line])
    \<and> (cur st = None \<or> (\<exists>c. cur st = Some c \<and> Test_Result (heap st ! c) = PASS) \<longrightarrow>
            parse_line E n line st = st)"
proof -
  have step: "parse_line E n line st = other_line line st"
    using assms(2-4) by (rule parse_line_other)
  have c: "c < length (heap st)" if "cur st = Some c" for c
    using assms(1) that by (rule wf_cur)
  show ?thesis
    unfolding step
    by (auto simp: other_line_def PASS_def FAIL_def SKIP_def dest: c)
qed

theorem other_line_effect_witness:
  "wf sample_failed \<and> \<not> is_result_line ''assertion failed at line 5''
   \<and> \<not> is_status_line ''assertion failed at line 5''
   \<and> Unmarshal (go_extern in_order) ''assertion failed at line 5'' = None
   \<and> cur sample_failed = Some 0 \<and> Test_Result (heap sample_failed ! 0) = FAIL
   \<and> Failure (heap (parse_line (go_extern in_order) 2 ''assertion failed at line 5''
        sample_failed) ! 0) = [''assertion failed at line 5'']"
proof -
  have h: "\<not> is_result_line ''assertion failed at line 5''"
    "\<not> is_status_line ''assertion failed at line 5''"
    "Unmarshal (go_extern in_order) ''assertion failed at line 5'' = None"
    by (simp_all add: is_result_line_def is_status_line_def assertion_line go_extern_def)
  have c: "cur sample_failed = Some 0" "Test_Result (heap sample_failed ! 0) = FAIL"
    "Failure (heap sample_failed ! 0) = []"
    by (simp_all add: sample_failed_eq FAIL_def)
  have "Failure (heap (parse_line (go_extern in_order) 2 ''assertion failed at line 5''
        sample_failed) ! 0) = Failure (heap sample_failed ! 0) @ [''assertion failed at line 5'']"
    using other_line_effect [OF wf_sample_failed h, of 2] c(1,2) by blast
  then have f: "Failure (heap (parse_line (go_extern in_order) 2 ''assertion failed at line 5''
        sample_failed) ! 0) = [''assertion failed at line 5'']"
    unfolding c(3) by simp
  show ?thesis
    by (rule conjI [OF wf_sample_failed conjI [OF h(1) conjI [OF h(2) conjI [OF h(3) conjI [OF c(1) conjI [OF c(2) f]]]]]])
qed

section \<open>Tests that no status line mentions\<close>

lemma verdict_output_record:
  assumes "wf st" "p < length (heap st)"
  shows "p < length (heap (output_record info st))
    \<and> verdict (heap (output_record info st) ! p) = verdict (heap st ! p)"
  using output_record_cases [OF assms(1), of info]
proof
  assume "\<exists>q. q < length (heap st) \<and> output_record info st =
       st\<lparr>heap := (heap st)[q := (heap st ! q)\<lparr>Output := Output (heap st ! q) @ [Info_Msg info]\<rparr>]\<rparr>
       \<and> (\<exists>tm. map_of (suites st) (Info_Suite info) = Some tm \<and> map_of tm (Info_Test info) = Some q)"
  then obtain q where "output_record info st =
       st\<lparr>heap := (heap st)[q := (heap st ! q)\<lparr>Output := Output (heap st ! q) @ [Info_Msg info]\<rparr>]\<rparr>"
    by blast
  with assms(2) show ?thesis
    by (cases "q = p") (simp_all add: verdict_def)
next
  assume "heap (output_record info st) =
         heap st @ [(new_Test (Info_Test info))\<lparr>Output := [Info_Msg info]\<rparr>]
       \<and> Info_Test info \<notin> fst ` set (case map_of (suites st) (Info_Suite info) of
                                          None \<Rightarrow> [] | Some tm \<Rightarrow> tm)"
  with assms(2) show ?thesis
    by (simp add: nth_append)
qed

lemma verdict_other_line:
  assumes "p < length (heap st)"
  shows "p < length (heap (other_line line st))
    \<and> verdict (heap (other_line line st) ! p) = verdict (heap st ! p)"
proof (cases "cur st")
  case None
  with assms show ?thesis by (simp add: other_line_def)
next
  case (Some c)
  with assms show ?thesis
    by (cases "c = p") (simp_all add: other_line_def verdict_def)
qed

lemma verdict_status_line:
  assumes "wf st" "p < length (heap st)" "Test_Name (heap st ! p) \<noteq> path_Base (matches ! 2)"
  shows "p < length (heap (status_line E n matches st))
    \<and> verdict (heap (status_line E n matches st) ! p) = verdict (heap st ! p)"
proof (cases "search_suites (range_choice E n) (path_Base (matches ! 2)) 0
                (range_order (range_choice E n 0) (suites st))")
  case None
  with assms show ?thesis by (simp add: status_line_def)
next
  case (Some q)
  from search_suites_Some [OF Some] obtain s tm where "(s, tm) \<in> set (suites st)"
    "(path_Base (matches ! 2), q) \<in> set tm"
    by (auto simp: set_range_order)
  with assms(1) have "Test_Name (heap st ! q) = path_Base (matches ! 2)"
    by (rule wf_suite_entry)
  with assms(3) have "q \<noteq> p" by auto
  with Some assms(2) show ?thesis
    by (simp add: status_line_def)
qed

lemma verdict_parse_line:
  assumes "wf st" "p < length (heap st)"
    and "\<not> (is_status_line line \<and> status_name line = Test_Name (heap st ! p))"
  shows "p < length (heap (parse_line E n line st))
    \<and> verdict (heap (parse_line E n line st) ! p) = verdict (heap st ! p)"
proof (cases "is_result_line line")
  case True
  with assms(2) show ?thesis
    by (simp add: parse_line_result heap_flush)
next
  case result: False
  show ?thesis
  proof (cases "is_status_line line")
    case True
    with assms(3) have "Test_Name (heap st ! p) \<noteq> path_Base (FindStringSubmatch regexStatus line ! 2)"
      by (auto simp: status_name_def)
    with assms(1,2) True show ?thesis
      by (simp add: parse_line_status verdict_status_line)
  next
    case False
    show ?thesis
    proof (cases "Unmarshal E line")
      case None
      with result False assms(2) show ?thesis
        by (simp add: parse_line_other verdict_other_line)
    next
      case (Some info)
      with result False have "parse_line E n line st = output_record info st"
        by (simp add: parse_line_def is_result_line_def is_status_line_def)
      with assms(1,2) show ?thesis
        by (simp add: verdict_output_record)
    qed
  qed
qed

lemma verdict_run:
  assumes "wf st" "p < length (heap st)"
    and "\<forall>l \<in> set ls. \<not> (is_status_line l \<and> status_name l = Test_Name (heap st ! p))"
  shows "p < length (heap (run E n ls st))
    \<and> verdict (heap (run E n ls st) ! p) = verdict (heap st ! p)"
  using assms
proof (induction ls arbitrary: n st)
  case Nil
  then show ?case by simp
next
  case (Cons l ls)
  let ?st = "parse_line E n l st"
  have 1: "p < length (heap ?st) \<and> verdict (heap ?st ! p) = verdict (heap st ! p)"
    using Cons.prems by (intro verdict_parse_line) simp_all
  then have name: "Test_Name (heap ?st ! p) = Test_Name (heap st ! p)"
    by (simp add: verdict_def)
  have "p < length (heap (run E (Suc n) ls ?st))
    \<and> verdict (heap (run E (Suc n) ls ?st) ! p) = verdict (heap ?st ! p)"
  proof (rule Cons.IH)
    show "wf ?st" using Cons.prems(1) by (rule wf_parse_line)
    show "p < length (heap ?st)" using 1 by simp
    show "\<forall>l \<in> set ls. \<not> (is_status_line l \<and> status_name l = Test_Name (heap ?st ! p))"
      using Cons.prems(3) by (simp add: name)
  qed
  with 1 show ?case by simp
qed

text \<open>
  Claim C5. Let an output record create a Test, after any lines \<open>pre\<close>, and let no later
  line be a status line whose name, reduced by \<^verbatim>\<open>path.Base\<close>, is the name of that Test. Then
  \<^verbatim>\<open>Parse\<close> returns a report, and in the store it returns with it the Test has the name of the
  record, the result PASS, which is the zero value of \<^verbatim>\<open>Result\<close>, and the duration 0.
\<close>

theorem record_only_test_default:
  assumes "is_output_record E l" and "Unmarshal E l = Some info"
    and "Info_Test info \<notin> fst ` set (case map_of (suites (run E 0 pre init)) (Info_Suite info) of
                                         None \<Rightarrow> [] | Some tm \<Rightarrow> tm)"
    and "\<forall>l' \<in> set post. \<not> (is_status_line l' \<and> status_name l' = Info_Test info)"
  shows "\<exists>r h. Parse E (pre @ l # post, EOF) pkgName = Inr (r, h)
      \<and> heap (run E 0 (pre @ [l]) init) =
          heap (run E 0 pre init) @ [(new_Test (Info_Test info))\<lparr>Output := [Info_Msg info]\<rparr>]
      \<and> length (heap (run E 0 pre init)) < length h
      \<and> Test_Name (h ! length (heap (run E 0 pre init))) = Info_Test info
      \<and> Test_Result (h ! length (heap (run E 0 pre init))) = PASS
      \<and> Test_Duration (h ! length (heap (run E 0 pre init))) = 0"
proof -
  let ?st = "run E 0 pre init"
  let ?st1 = "parse_line E (length pre) l ?st"
  let ?p = "length (heap ?st)"
  let ?fin = "run E (Suc (length pre)) post ?st1"
  have wf: "wf ?st" by (rule wf_run) (rule wf_init)
  have step: "?st1 = output_record info ?st"
    using assms(1,2) by (rule parse_line_record)
  have h1: "heap ?st1 = heap ?st @ [(new_Test (Info_Test info))\<lparr>Output := [Info_Msg info]\<rparr>]"
    unfolding step using assms(3) by (rule output_record_alloc)
  then have v1: "verdict (heap ?st1 ! ?p) = (Info_Test info, PASS, 0)"
    by (simp add: verdict_def new_Test_def PASS_def)
  have "?p < length (heap ?fin) \<and> verdict (heap ?fin ! ?p) = verdict (heap ?st1 ! ?p)"
  proof (rule verdict_run)
    show "wf ?st1" using wf by (rule wf_parse_line)
    show "?p < length (heap ?st1)" by (simp add: h1)
    show "\<forall>l' \<in> set post. \<not> (is_status_line l' \<and> status_name l' = Test_Name (heap ?st1 ! ?p))"
      using assms(4) by (simp add: h1 new_Test_def)
  qed
  with v1 have fin: "?p < length (heap ?fin)" "verdict (heap ?fin ! ?p) = (Info_Test info, PASS, 0)"
    by simp_all
  have run: "run E 0 (pre @ l # post) init = ?fin"
    by (simp add: run_append)
  have "Parse E (pre @ l # post, EOF) pkgName = Inr (report ?fin, heap ?fin)"
    by (simp add: Parse_def Parse_loop_run run)
  moreover have "heap (run E 0 (pre @ [l]) init) =
      heap ?st @ [(new_Test (Info_Test info))\<lparr>Output := [Info_Msg info]\<rparr>]"
    by (simp add: run_append h1)
  ultimately show ?thesis
    using fin by (auto simp: verdict_def)
qed

theorem record_only_test_default_witness:
  "is_output_record (go_extern in_order) sample_record
   \<and> Unmarshal (go_extern in_order) sample_record = Some \<lparr>Info_Suite = ''pkgA'', Info_Test = ''TestFoo'', Info_Msg = ''hello''\<rparr>
   \<and> ''TestFoo'' \<notin> fst ` set (case map_of (suites (run (go_extern in_order) 0 [] init)) ''pkgA'' of
                                  None \<Rightarrow> [] | Some tm \<Rightarrow> tm)
   \<and> \<not> is_status_line ''ok pkgA (cached)''
   \<and> (\<exists>r h. Parse (go_extern in_order) ([] @ sample_record # [''ok pkgA (cached)''], EOF) ''pkgA'' = Inr (r, h)
      \<and> heap (run (go_extern in_order) 0 ([] @ [sample_record]) init) =
          heap (run (go_extern in_order) 0 [] init) @ [(new_Test (Info_Test \<lparr>Info_Suite = ''pkgA'', Info_Test = ''TestFoo'', Info_Msg = ''hello''\<rparr>))\<lparr>Output := [Info_Msg \<lparr>Info_Suite = ''pkgA'', Info_Test = ''TestFoo'', Info_Msg = ''hello''\<rparr>]\<rparr>]
      \<and> length (heap (run (go_extern in_order) 0 [] init)) < length h
      \<and> Test_Name (h ! length (heap (run (go_extern in_order) 0 [] init))) = Info_Test \<lparr>Info_Suite = ''pkgA'', Info_Test = ''TestFoo'', Info_Msg = ''hello''\<rparr>
      \<and> Test_Result (h ! length (heap (run (go_extern in_order) 0 [] init))) = PASS
      \<and> Test_Duration (h ! length (heap (run (go_extern in_order) 0 [] init))) = 0)"
proof -
  have u: "Unmarshal (go_extern in_order) sample_record = Some \<lparr>Info_Suite = ''pkgA'', Info_Test = ''TestFoo'', Info_Msg = ''hello''\<rparr>"
    by (simp add: go_extern_def sample_record_lines)
  have new: "Info_Test \<lparr>Info_Suite = ''pkgA'', Info_Test = ''TestFoo'', Info_Msg = ''hello''\<rparr>
      \<notin> fst ` set (case map_of (suites (run (go_extern in_order) 0 [] init))
                          (Info_Suite \<lparr>Info_Suite = ''pkgA'', Info_Test = ''TestFoo'', Info_Msg = ''hello''\<rparr>) of
                     None \<Rightarrow> [] | Some tm \<Rightarrow> tm)"
    by (simp add: init_def)
  have ns: "\<not> is_status_line ''ok pkgA (cached)''"
    by (simp add: is_status_line_def is_result_line_def cached_line)
  then have post: "\<forall>l' \<in> set [''ok pkgA (cached)''].
      \<not> (is_status_line l' \<and> status_name l' = Info_Test \<lparr>Info_Suite = ''pkgA'', Info_Test = ''TestFoo'', Info_Msg = ''hello''\<rparr>)"
    by simp
  from new have new': "''TestFoo'' \<notin> fst ` set (case map_of (suites (run (go_extern in_order) 0 [] init)) ''pkgA'' of
                                  None \<Rightarrow> [] | Some tm \<Rightarrow> tm)"
    by simp
  have concl: "\<exists>r h. Parse (go_extern in_order) ([] @ sample_record # [''ok pkgA (cached)''], EOF) ''pkgA'' = Inr (r, h)
      \<and> heap (run (go_extern in_order) 0 ([] @ [sample_record]) init) =
          heap (run (go_extern in_order) 0 [] init) @ [(new_Test (Info_Test \<lparr>Info_Suite = ''pkgA'', Info_Test = ''TestFoo'', Info_Msg = ''hello''\<rparr>))\<lparr>Output := [Info_Msg \<lparr>Info_Suite = ''pkgA'', Info_Test = ''TestFoo'', Info_Msg = ''hello''\<rparr>]\<rparr>]
      \<and> length (heap (run (go_extern in_order) 0 [] init)) < length h
      \<and> Test_Name (h ! length (heap (run (go_extern in_order) 0 [] init))) = Info_Test \<lparr>Info_Suite = ''pkgA'', Info_Test = ''TestFoo'', Info_Msg = ''hello''\<rparr>
      \<and> Test_Result (h ! length (heap (run (go_extern in_order) 0 [] init))) = PASS
      \<and> Test_Duration (h ! length (heap (run (go_extern in_order) 0 [] init))) = 0"
    using record_only_test_default [OF sample_record_ok u new post, of "''pkgA''"] by simp
  show ?thesis
    by (rule conjI [OF sample_record_ok conjI [OF u conjI [OF new' conjI [OF ns concl]]]])
qed

section \<open>Which lines are output records\<close>

lemma Output_flush: "map Output (heap (flush E n st)) = map Output (heap st)"
  by (simp add: heap_flush)

lemma map_Output_update:
  assumes "Output t = Output (h ! q)"
  shows "map Output (h[q := t]) = map Output h"
proof (cases "q < length h")
  case True
  with assms show ?thesis
    by (simp add: map_update list_update_same_conv)
next
  case False
  then show ?thesis
    by (simp add: list_update_beyond)
qed

lemma Output_status_line:
  "map Output (heap (status_line E n matches st)) = map Output (heap st)"
  by (simp add: status_line_def Let_def map_Output_update split: option.splits)

lemma Output_other_line: "map Output (heap (other_line line st)) = map Output (heap st)"
  by (simp add: other_line_def map_Output_update split: option.splits)

lemma Output_output_record:
  assumes "wf st"
  shows "map Output (heap (output_record info st)) \<noteq> map Output (heap st)"
  using output_record_cases [OF assms, of info]
proof
  assume "\<exists>q. q < length (heap st) \<and> output_record info st =
       st\<lparr>heap := (heap st)[q := (heap st ! q)\<lparr>Output := Output (heap st ! q) @ [Info_Msg info]\<rparr>]\<rparr>
       \<and> (\<exists>tm. map_of (suites st) (Info_Suite info) = Some tm \<and> map_of tm (Info_Test info) = Some q)"
  then obtain q where q: "q < length (heap st)" "output_record info st =
       st\<lparr>heap := (heap st)[q := (heap st ! q)\<lparr>Output := Output (heap st ! q) @ [Info_Msg info]\<rparr>]\<rparr>"
    by blast
  then have "map Output (heap (output_record info st)) ! q = Output (heap st ! q) @ [Info_Msg info]"
    by simp
  moreover have "map Output (heap st) ! q = Output (heap st ! q)"
    using q(1) by simp
  ultimately show ?thesis
    by (metis append_self_conv not_Cons_self2)
next
  assume "heap (output_record info st) =
         heap st @ [(new_Test (Info_Test info))\<lparr>Output := [Info_Msg info]\<rparr>]
       \<and> Info_Test info \<notin> fst ` set (case map_of (suites st) (Info_Suite info) of
                                          None \<Rightarrow> [] | Some tm \<Rightarrow> tm)"
  then have "length (map Output (heap (output_record info st))) \<noteq> length (map Output (heap st))"
    by simp
  then show ?thesis by metis
qed

text \<open>
  Claim C6, as amended. In a state of the loop, a line creates a Test or appends to the output
  sequence of a Test exactly when it matches neither the package-result pattern nor the status
  pattern and \<^verbatim>\<open>json.Unmarshal\<close> of the whole line into an \<^verbatim>\<open>Info\<close> returns no error.
\<close>

theorem output_record_rule:
  assumes "wf st"
  shows "(map Output (heap (parse_line E n line st)) \<noteq> map Output (heap st)) =
         is_output_record E line"
proof (cases "is_result_line line")
  case True
  then show ?thesis
    by (simp add: parse_line_result Output_flush is_output_record_def)
next
  case result: False
  show ?thesis
  proof (cases "is_status_line line")
    case True
    then show ?thesis
      by (simp add: parse_line_status Output_status_line is_output_record_def is_status_line_def)
  next
    case False
    show ?thesis
    proof (cases "Unmarshal E line")
      case None
      with result False show ?thesis
        by (simp add: parse_line_other Output_other_line is_output_record_def)
    next
      case (Some info)
      with result False have r: "is_output_record E line"
        by (simp add: is_output_record_def is_status_line_def)
      then have "parse_line E n line st = output_record info st"
        using Some by (rule parse_line_record)
      with r assms show ?thesis
        by (simp add: Output_output_record)
    qed
  qed
qed

theorem output_record_rule_witness:
  "wf sample_open \<and> is_output_record (go_extern in_order) sample_record
   \<and> map Output (heap (parse_line (go_extern in_order) 1 sample_record sample_open)) \<noteq>
       map Output (heap sample_open)"
  using wf_sample_open sample_record_ok
    output_record_rule [OF wf_sample_open, of "go_extern in_order" 1 sample_record]
  by simp

text \<open>
  The claim C6 as the specification states it fails in both directions. The line \<^verbatim>\<open>{}\<close> is
  no object with the three members Suite, Test and Msg, yet \<^verbatim>\<open>json.Unmarshal\<close> accepts it and
  the line creates a Test with the empty name in the package with the empty name. And an
  object with exactly the three string members whose message contains the text of a status
  line is handled as a status line: nothing is appended to any output sequence.
\<close>

theorem output_record_rule_counterexample:
  "\<not> spec_output_record ''{}''
   \<and> is_output_record (go_extern in_order) ''{}''
   \<and> heap (parse_line (go_extern in_order) 0 ''{}'' init) =
       [\<lparr>Test_Name = [], Test_Duration = 0, Test_Result = PASS, Output = [[]], Failure = [],
         SkipMsg = [], SubtestIndent = [], Test_Time = 0\<rparr>]
   \<and> spec_output_record status_in_record
   \<and> \<not> is_output_record (go_extern in_order) status_in_record
   \<and> map Output (heap (parse_line (go_extern in_order) 1 status_in_record sample_open)) =
       map Output (heap sample_open)"
proof -
  have e: "FindStringSubmatch regexResult ''{}'' = []" "FindStringSubmatch regexStatus ''{}'' = []"
    "go_Unmarshal ''{}'' = Some \<lparr>Info_Suite = [], Info_Test = [], Info_Msg = []\<rparr>"
    "parse_value 0 ''{}'' = Some (JObject [], [])"
    by (simp_all add: regex_defs json_defs)
  have s: "FindStringSubmatch regexResult status_in_record = []"
    "length (FindStringSubmatch regexStatus status_in_record) = 4"
    by (simp_all add: status_in_record_def regex_defs)
  have "parse_value 0 status_in_record =
      Some (JObject [(''Suite'', JString ''pkgA''), (''Test'', JString ''TestFoo''),
                     (''Msg'', JString ''--- PASS: TestFoo (0.01s)'')], [])"
    by (simp add: status_in_record_def json_defs)
  then have 4: "spec_output_record status_in_record"
    by (auto simp: spec_output_record_def skip_space_def)
  have 1: "\<not> spec_output_record ''{}''"
    by (simp add: spec_output_record_def json_defs)
  have 2: "is_output_record (go_extern in_order) ''{}''"
    by (simp add: is_output_record_def is_result_line_def e go_extern_def)
  have 3: "heap (parse_line (go_extern in_order) 0 ''{}'' init) =
       [\<lparr>Test_Name = [], Test_Duration = 0, Test_Result = PASS, Output = [[]], Failure = [],
         SkipMsg = [], SubtestIndent = [], Test_Time = 0\<rparr>]"
    by (simp add: parse_line_def e go_extern_def output_record_def init_def new_Test_def PASS_def)
  have 5: "\<not> is_output_record (go_extern in_order) status_in_record"
    by (simp add: is_output_record_def s)
  have "is_status_line status_in_record"
    by (simp add: is_status_line_def is_result_line_def s)
  then have 6: "map Output (heap (parse_line (go_extern in_order) 1 status_in_record sample_open)) =
       map Output (heap sample_open)"
    by (simp add: parse_line_status Output_status_line)
  show ?thesis
    by (rule conjI [OF 1 conjI [OF 2 conjI [OF 3 conjI [OF 4 conjI [OF 5 6]]]]])
qed

section \<open>The fields of an emitted package\<close>

lemma plain_packages_run:
  assumes "\<forall>p \<in> set (Packages (report st)). CoveragePct p = [] \<and> Benchmarks p = []"
  shows "\<forall>p \<in> set (Packages (report (run E n ls st))). CoveragePct p = [] \<and> Benchmarks p = []"
  using assms
proof (induction ls arbitrary: n st)
  case Nil
  then show ?case by simp
next
  case (Cons l ls)
  have "\<forall>p \<in> set (Packages (report (parse_line E n l st))). CoveragePct p = [] \<and> Benchmarks p = []"
    using Cons.prems by (auto simp: report_eq_parse_line flushed_duration)
  from Cons.IH [OF this] show ?case by simp
qed

text \<open>
  Claim C7. Every Package of a report that \<^verbatim>\<open>Parse\<close> returns has an empty CoveragePct and
  no Benchmarks, and the effect of a package-result line does not depend on the line: any
  two lines that match the pattern, whatever coverage, duration and package path they
  carry, lead from a state to the same state, so the emitted packages are made from the
  accumulation buffer alone.
\<close>

theorem result_line_fields_unused:
  "(\<forall>r h. Parse E rd pkgName = Inr (r, h) \<longrightarrow>
      (\<forall>p \<in> set (Packages r). CoveragePct p = [] \<and> Benchmarks p = []))
   \<and> (is_result_line l1 \<and> is_result_line l2 \<longrightarrow> parse_line E n l1 st = parse_line E n l2 st)"
proof (intro conjI allI impI)
  fix r h assume "Parse E rd pkgName = Inr (r, h)"
  then have "r = report (run E 0 (fst rd) init)"
    by (auto simp: Parse_def Parse_loop_run split: if_splits)
  moreover have "\<forall>p \<in> set (Packages (report (run E 0 (fst rd) init))).
      CoveragePct p = [] \<and> Benchmarks p = []"
    by (rule plain_packages_run) (simp add: init_def)
  ultimately show "\<forall>p \<in> set (Packages r). CoveragePct p = [] \<and> Benchmarks p = []"
    by simp
next
  assume "is_result_line l1 \<and> is_result_line l2"
  then show "parse_line E n l1 st = parse_line E n l2 st"
    by (simp add: parse_line_result)
qed

theorem result_line_fields_unused_witness:
  "is_result_line ''ok pkgA 0.5s coverage: 87.5% of statements''
   \<and> is_result_line ''FAIL pkgA 0.020s''
   \<and> parse_line (go_extern in_order) 2 ''ok pkgA 0.5s coverage: 87.5% of statements'' sample_failed =
       parse_line (go_extern in_order) 2 ''FAIL pkgA 0.020s'' sample_failed
   \<and> (\<exists>r h. Parse (go_extern in_order)
          ([sample_record, ''--- FAIL: TestFoo (0.02s)'',
            ''ok pkgA 0.5s coverage: 87.5% of statements''], EOF) ''pkgA'' = Inr (r, h)
        \<and> map Package_Name (Packages r) = [''pkgA'']
        \<and> list_all (\<lambda>p. CoveragePct p = [] \<and> Benchmarks p = []) (Packages r))"
proof -
  let ?E = "go_extern in_order"
  let ?ls = "[sample_record, ''--- FAIL: TestFoo (0.02s)'',
              ''ok pkgA 0.5s coverage: 87.5% of statements'']"
  note inst = result_line_fields_unused [of ?E "(?ls, EOF)" "''pkgA''"
        "''ok pkgA 0.5s coverage: 87.5% of statements''" "''FAIL pkgA 0.020s''" 2 sample_failed]
  have eq: "parse_line ?E 2 ''ok pkgA 0.5s coverage: 87.5% of statements'' sample_failed =
       parse_line ?E 2 ''FAIL pkgA 0.020s'' sample_failed"
    using inst coverage_line_ok result_line_ok by blast
  have run: "run ?E 0 ?ls init =
      parse_line ?E 2 ''ok pkgA 0.5s coverage: 87.5% of statements'' sample_failed"
    using run_append [of ?E 0 "[sample_record, ''--- FAIL: TestFoo (0.02s)'']"
        "[''ok pkgA 0.5s coverage: 87.5% of statements'']" init]
    by (simp add: sample_failed_def eval_nat_numeral)
  have P: "Parse ?E (?ls, EOF) ''pkgA'' = Inr (report (run ?E 0 ?ls init), heap (run ?E 0 ?ls init))"
    by (simp add: Parse_def Parse_loop_run)
  have names: "map Package_Name (Packages (report (run ?E 0 ?ls init))) = [''pkgA'']"
    unfolding run eq by (simp add: sample_flushed_eq)
  have "\<forall>p \<in> set (Packages (report (run ?E 0 ?ls init))). CoveragePct p = [] \<and> Benchmarks p = []"
    using inst P by blast
  then have la: "list_all (\<lambda>p. CoveragePct p = [] \<and> Benchmarks p = [])
      (Packages (report (run ?E 0 ?ls init)))"
    by (simp add: list_all_iff)
  have ex: "\<exists>r h. Parse ?E (?ls, EOF) ''pkgA'' = Inr (r, h)
        \<and> map Package_Name (Packages r) = [''pkgA'']
        \<and> list_all (\<lambda>p. CoveragePct p = [] \<and> Benchmarks p = []) (Packages r)"
    by (rule exI, rule exI, rule conjI [OF P conjI [OF names la]])
  show ?thesis
    by (rule conjI [OF coverage_line_ok conjI [OF result_line_ok conjI [OF eq ex]]])
qed

section \<open>Errors\<close>

text \<open>
  Claim C8. \<^verbatim>\<open>Parse\<close> returns an error exactly when the stream ends with an error other than
  \<^verbatim>\<open>io.EOF\<close>; it then returns that error and no report. On \<^verbatim>\<open>io.EOF\<close> it returns the report of
  the state after all lines, whatever the lines are.
\<close>

theorem Parse_error_iff:
  "Parse E (ls, err) pkgName =
     (if err = EOF then Inr (report (run E 0 ls init), heap (run E 0 ls init)) else Inl err)"
  by (simp add: Parse_def Parse_loop_run)

theorem Parse_error_iff_witness:
  "Parse (go_extern in_order) ([sample_record, ''not a known line''], ReadError ''broken pipe'') ''pkgA'' =
     Inl (ReadError ''broken pipe'')
   \<and> Parse (go_extern in_order) ([sample_record, ''not a known line''], EOF) ''pkgA'' =
       Inr (report sample_open, heap sample_open)"
proof -
  have l: "FindStringSubmatch regexResult ''not a known line'' = []"
    "FindStringSubmatch regexStatus ''not a known line'' = []"
    "go_Unmarshal ''not a known line'' = None"
    by (simp_all add: regex_defs json_defs)
  have "run (go_extern in_order) 0 [sample_record, ''not a known line''] init =
      parse_line (go_extern in_order) 1 ''not a known line'' sample_open"
    by (simp add: sample_open_def)
  also have "\<dots> = sample_open"
    by (simp add: parse_line_def l go_extern_def other_line_def sample_open_eq)
  finally show ?thesis
    using Parse_error_iff [of "go_extern in_order" "[sample_record, ''not a known line'']"]
    by simp
qed

section \<open>Counting failures\<close>

lemma Failures_inner:
  "foldl (\<lambda>count t. if Test_Result (h ! t) = FAIL then count + 1 else count) c ts =
   c + int (length (filter (\<lambda>t. Test_Result (h ! t) = FAIL) ts))"
  by (induction ts arbitrary: c) simp_all

lemma Failures_outer:
  "foldl (\<lambda>count p.
            foldl (\<lambda>count t. if Test_Result (h ! t) = FAIL then count + 1 else count)
              count (Tests p)) c ps =
   c + int (length (filter (\<lambda>t. Test_Result (h ! t) = FAIL) (concat (map Tests ps))))"
  by (induction ps arbitrary: c) (simp_all add: Failures_inner)

text \<open>
  Claim C9. \<^verbatim>\<open>Failures\<close> is the number of tests, over all packages of the report, whose result
  is FAIL, and it is 0 for a report with no packages.
\<close>

theorem Failures_count:
  "Failures h r =
     int (length (filter (\<lambda>t. Test_Result (h ! t) = FAIL) (concat (map Tests (Packages r)))))
   \<and> Failures h \<lparr>Packages = []\<rparr> = 0"
  by (simp add: Failures_def Failures_outer)

theorem Failures_count_witness:
  "Failures
     [(new_Test ''TestA'')\<lparr>Test_Result := FAIL\<rparr>, new_Test ''TestB'',
      (new_Test ''TestC'')\<lparr>Test_Result := FAIL\<rparr>]
     \<lparr>Packages = [flush_suite [] [] (''pkgA'', [(''TestA'', 0), (''TestB'', 1)]),
                  flush_suite [] [] (''pkgB'', [(''TestC'', 2)])]\<rparr> = 2
   \<and> Failures [] \<lparr>Packages = []\<rparr> = 0"
  using Failures_count [of
     "[(new_Test ''TestA'')\<lparr>Test_Result := FAIL\<rparr>, new_Test ''TestB'',
       (new_Test ''TestC'')\<lparr>Test_Result := FAIL\<rparr>]"
     "\<lparr>Packages = [flush_suite [] [] (''pkgA'', [(''TestA'', 0), (''TestB'', 1)]),
                   flush_suite [] [] (''pkgB'', [(''TestC'', 2)])]\<rparr>"]
    Failures_count [of "[]" "\<lparr>Packages = []\<rparr>"]
  by (simp add: flush_suite_sel new_Test_def FAIL_def)

section \<open>Lines after a flush\<close>

text \<open>
  Claim C10. A package-result line leaves the current-test handle and the store as they are,
  and the packages it emits hold the very pointers of the accumulation buffer. So a free-text
  line that follows it reaches a Test of a package already in the report: in the run below the
  line \<^verbatim>\<open>late output\<close> comes after the package-result line and ends up in the failure details
  of TestFoo in the report that \<^verbatim>\<open>Parse\<close> returns.
\<close>

theorem flush_keeps_current_test:
  "(is_result_line line \<longrightarrow>
      cur (parse_line E n line st) = cur st \<and> heap (parse_line E n line st) = heap st
      \<and> report_ptrs (report (parse_line E n line st)) =
          report_ptrs (report st) \<union> suite_ptrs (suites st))
   \<and> map Tests (Packages (report (parse_line (go_extern in_order) 2 ''FAIL pkgA 0.020s''
        sample_failed))) = [[0]]
   \<and> Failure (heap (parse_line (go_extern in_order) 2 ''FAIL pkgA 0.020s'' sample_failed) ! 0) = []
   \<and> Failure (heap (parse_line (go_extern in_order) 3 ''late output''
        (parse_line (go_extern in_order) 2 ''FAIL pkgA 0.020s'' sample_failed)) ! 0) =
       [''late output'']
   \<and> Parse (go_extern in_order)
        ([sample_record, ''--- FAIL: TestFoo (0.02s)'', ''FAIL pkgA 0.020s'', ''late output''], EOF)
        pkgName =
       Inr (\<lparr>Packages = [\<lparr>Package_Name = ''pkgA'', Package_Duration = 20000000, Tests = [0],
                Benchmarks = [], CoveragePct = [], Package_Time = 20\<rparr>]\<rparr>,
            [\<lparr>Test_Name = ''TestFoo'', Test_Duration = 20000000, Test_Result = FAIL,
              Output = [''hello''], Failure = [''late output''], SkipMsg = [],
              SubtestIndent = [], Test_Time = 0\<rparr>])"
proof (intro conjI impI)
  assume r: "is_result_line line"
  show "cur (parse_line E n line st) = cur st"
    using r by (simp add: parse_line_result cur_flush)
  show "heap (parse_line E n line st) = heap st"
    using r by (simp add: parse_line_result heap_flush)
  show "report_ptrs (report (parse_line E n line st)) =
      report_ptrs (report st) \<union> suite_ptrs (suites st)"
    using r by (simp add: parse_line_result report_ptrs_flush)
next
  let ?st3 = "parse_line (go_extern in_order) 2 ''FAIL pkgA 0.020s'' sample_failed"
  note st3 = sample_flushed_eq
  have late: "FindStringSubmatch regexResult ''late output'' = []"
    "FindStringSubmatch regexStatus ''late output'' = []"
    "go_Unmarshal ''late output'' = None"
    by (simp_all add: regex_defs json_defs)
  have st4: "parse_line (go_extern in_order) 3 ''late output'' ?st3 =
     \<lparr>heap = [\<lparr>Test_Name = ''TestFoo'', Test_Duration = 20000000, Test_Result = 1,
               Output = [''hello''], Failure = [''late output''], SkipMsg = [], SubtestIndent = [],
               Test_Time = 0\<rparr>],
      report = \<lparr>Packages = [\<lparr>Package_Name = ''pkgA'', Package_Duration = 20000000, Tests = [0],
                Benchmarks = [], CoveragePct = [], Package_Time = 20\<rparr>]\<rparr>,
      suites = [], cur = Some 0\<rparr>"
    unfolding st3
    by (simp add: parse_line_def late other_line_def go_extern_def FAIL_def)
  show "map Tests (Packages (report ?st3)) = [[0]]"
    by (simp add: st3)
  show "Failure (heap ?st3 ! 0) = []"
    by (simp add: st3)
  show "Failure (heap (parse_line (go_extern in_order) 3 ''late output'' ?st3) ! 0) = [''late output'']"
    by (simp add: st4)
  have "run (go_extern in_order) 0
      [sample_record, ''--- FAIL: TestFoo (0.02s)'', ''FAIL pkgA 0.020s'', ''late output''] init =
      parse_line (go_extern in_order) 3 ''late output'' ?st3"
    using run_append [of "go_extern in_order" 0 "[sample_record, ''--- FAIL: TestFoo (0.02s)'']"
        "[''FAIL pkgA 0.020s'', ''late output'']" init]
    by (simp add: sample_failed_def eval_nat_numeral)
  then show "Parse (go_extern in_order)
        ([sample_record, ''--- FAIL: TestFoo (0.02s)'', ''FAIL pkgA 0.020s'', ''late output''], EOF)
        pkgName =
       Inr (\<lparr>Packages = [\<lparr>Package_Name = ''pkgA'', Package_Duration = 20000000, Tests = [0],
                Benchmarks = [], CoveragePct = [], Package_Time = 20\<rparr>]\<rparr>,
            [\<lparr>Test_Name = ''TestFoo'', Test_Duration = 20000000, Test_Result = FAIL,
              Output = [''hello''], Failure = [''late output''], SkipMsg = [],
              SubtestIndent = [], Test_Time = 0\<rparr>])"
    by (simp add: Parse_def Parse_loop_run st4 FAIL_def)
qed

theorem flush_keeps_current_test_witness:
  "is_result_line ''FAIL pkgA 0.020s''
   \<and> cur sample_failed = Some 0
   \<and> cur (parse_line (go_extern in_order) 2 ''FAIL pkgA 0.020s'' sample_failed) = Some 0
   \<and> map Tests (Packages (report (parse_line (go_extern in_order) 2 ''FAIL pkgA 0.020s''
        sample_failed))) = [[0]]
   \<and> Failure (heap (parse_line (go_extern in_order) 3 ''late output''
        (parse_line (go_extern in_order) 2 ''FAIL pkgA 0.020s'' sample_failed)) ! 0) =
       [''late output'']"
proof -
  have c: "cur sample_failed = Some 0"
    by (simp add: sample_failed_eq)
  from flush_keeps_current_test [of "''FAIL pkgA 0.020s''" "go_extern in_order" 2 sample_failed]
    result_line_ok c
  show ?thesis by simp
qed

end
